theory Spec2Isabelle
  imports Main "HOL-Library.Word" "HOL-Library.Log_Nat" "HOL-Library.Multiset"
    "HOL-Library.List_Lexorder" "HOL-Library.Sublist"
begin

section \<open>JavaScript numbers\<close>

text \<open>
  A JavaScript number is an IEEE 754 binary64 value.  The finite ones are modelled by the
  rational they denote, the three others by constructors of their own.  The two zeros are
  identified: the program never divides by zero and it looks at numbers only through
  \<open>===\<close>, \<open><\<close>, \<open><=\<close>, \<open>>\<close>, \<open>>=\<close> and truthiness, none of which tells \<open>-0\<close> from \<open>+0\<close>.
\<close>

datatype jsnum = NaN | PInf | NInf | Fin rat

text \<open>\<open>flog2 q\<close> is the binary exponent of a positive rational: \<open>2^k \<le> q < 2^(k+1)\<close>.\<close>

definition flog2 :: "rat \<Rightarrow> int" where
  "flog2 q = (let (n, d) = quotient_of q; k = bitlen n - bitlen d
              in if 2 powi k \<le> q then k else k - 1)"

text \<open>Rounding to the nearest integer, ties to even.\<close>

definition round_even :: "rat \<Rightarrow> int" where
  "round_even x = (let f = \<lfloor>x\<rfloor>; d = x - of_int f
     in if d < 1 / 2 then f else if 1 / 2 < d then f + 1 else if even f then f else f + 1)"

text \<open>
  The exponent of the unit in the last place of a magnitude \<open>a\<close>: 53 significant bits for
  normal numbers, the fixed step \<open>2^-1074\<close> for subnormal ones.
\<close>

definition ulp_exp :: "rat \<Rightarrow> int" where
  "ulp_exp a = max (flog2 a) (- 1022) - 52"

text \<open>
  \<open>rnd q\<close> is the binary64 value of the real number \<open>q\<close> (round to nearest, ties to even):
  every arithmetic operation of JavaScript returns the rounded exact result, and a
  magnitude that rounds to \<open>2^1024\<close> or more overflows to an infinity.
\<close>

definition rnd :: "rat \<Rightarrow> jsnum" where
  "rnd q = (if q = 0 then Fin 0 else
     let e = ulp_exp \<bar>q\<bar>;
         m = of_int (round_even (\<bar>q\<bar> / 2 powi e)) * 2 powi e
     in if 2 powi 1024 \<le> m then (if 0 < q then PInf else NInf) else Fin (sgn q * m))"

text \<open>A rational is a binary64 value when rounding leaves it alone.\<close>

definition is_double :: "rat \<Rightarrow> bool" where
  "is_double q \<longleftrightarrow> rnd q = Fin q"

definition wf_num :: "jsnum \<Rightarrow> bool" where
  "wf_num x = (case x of Fin q \<Rightarrow> is_double q | _ \<Rightarrow> True)"

text \<open>\<open>Number.isFinite\<close> on a number.\<close>

definition isFinite :: "jsnum \<Rightarrow> bool" where
  "isFinite x = (case x of Fin _ \<Rightarrow> True | _ \<Rightarrow> False)"

text \<open>Unary minus, \<open>+\<close>, \<open>-\<close> and \<open>/\<close>.\<close>

fun jnegate :: "jsnum \<Rightarrow> jsnum" where
  "jnegate NaN = NaN"
| "jnegate PInf = NInf"
| "jnegate NInf = PInf"
| "jnegate (Fin a) = Fin (- a)"

fun jadd :: "jsnum \<Rightarrow> jsnum \<Rightarrow> jsnum" where
  "jadd NaN _ = NaN"
| "jadd _ NaN = NaN"
| "jadd (Fin a) (Fin b) = rnd (a + b)"
| "jadd PInf NInf = NaN"
| "jadd NInf PInf = NaN"
| "jadd PInf _ = PInf"
| "jadd NInf _ = NInf"
| "jadd _ PInf = PInf"
| "jadd _ NInf = NInf"

definition jsub :: "jsnum \<Rightarrow> jsnum \<Rightarrow> jsnum" where
  "jsub a b = jadd a (jnegate b)"

text \<open>
  Division.  A finite number over zero is given as for \<open>+0\<close>; the program divides only by
  numbers it has tested to be positive.
\<close>

fun jdiv :: "jsnum \<Rightarrow> jsnum \<Rightarrow> jsnum" where
  "jdiv NaN _ = NaN"
| "jdiv _ NaN = NaN"
| "jdiv (Fin a) (Fin b) =
     (if b = 0 then (if a = 0 then NaN else if 0 < a then PInf else NInf) else rnd (a / b))"
| "jdiv (Fin a) _ = Fin 0"
| "jdiv PInf (Fin b) = (if 0 \<le> b then PInf else NInf)"
| "jdiv NInf (Fin b) = (if 0 \<le> b then NInf else PInf)"
| "jdiv _ _ = NaN"

text \<open>The comparisons \<open><\<close>, \<open>===\<close>, \<open><=\<close>, \<open>>\<close>, \<open>>=\<close>: all false on \<open>NaN\<close>.\<close>

fun jlt :: "jsnum \<Rightarrow> jsnum \<Rightarrow> bool" where
  "jlt NaN _ = False"
| "jlt _ NaN = False"
| "jlt PInf _ = False"
| "jlt _ PInf = True"
| "jlt _ NInf = False"
| "jlt NInf _ = True"
| "jlt (Fin a) (Fin b) = (a < b)"

definition jeq :: "jsnum \<Rightarrow> jsnum \<Rightarrow> bool" where
  "jeq a b \<longleftrightarrow> a \<noteq> NaN \<and> a = b"

definition jle :: "jsnum \<Rightarrow> jsnum \<Rightarrow> bool" where
  "jle a b \<longleftrightarrow> jlt a b \<or> jeq a b"

definition jgt :: "jsnum \<Rightarrow> jsnum \<Rightarrow> bool" where
  "jgt a b \<longleftrightarrow> jlt b a"


text \<open>Truthiness of a number: \<open>0\<close> and \<open>NaN\<close> are falsy.\<close>

definition truthy_num :: "jsnum \<Rightarrow> bool" where
  "truthy_num x \<longleftrightarrow> x \<noteq> NaN \<and> x \<noteq> Fin 0"

section \<open>JavaScript strings and values\<close>

text \<open>A string is a sequence of 16-bit code units.\<close>

type_synonym jsstring = "16 word list"

definition js :: "string \<Rightarrow> jsstring" where
  "js s = map of_char s"

text \<open>
  \<open>String.prototype.trim\<close> strips the WhiteSpace and LineTerminator code points of
  ECMAScript from both ends.
\<close>

definition isWhiteSpace :: "16 word \<Rightarrow> bool" where
  "isWhiteSpace c \<longleftrightarrow>
     c = 0x9 \<or> c = 0xA \<or> c = 0xB \<or> c = 0xC \<or> c = 0xD \<or> c = 0x20 \<or> c = 0xA0 \<or>
     c = 0x1680 \<or> (0x2000 \<le> c \<and> c \<le> 0x200A) \<or> c = 0x2028 \<or> c = 0x2029 \<or>
     c = 0x202F \<or> c = 0x205F \<or> c = 0x3000 \<or> c = 0xFEFF"

definition trim :: "jsstring \<Rightarrow> jsstring" where
  "trim s = rev (dropWhile isWhiteSpace (rev (dropWhile isWhiteSpace s)))"

text \<open>
  The values \<open>safeNumber\<close> can be handed (its parameter has type \<open>unknown\<close>): numbers,
  strings, and everything whose \<open>typeof\<close> is neither \<open>number\<close> nor \<open>string\<close>.
\<close>

datatype jsval = JNum jsnum | JStr jsstring | JBool bool | JNull | JUndefined | JObject

subsection \<open>\<open>Number(s)\<close> on a string\<close>

text \<open>
  ECMAScript's StringToNumber: the string, trimmed, is empty (value 0), a binary, octal or
  hexadecimal integer literal, or an optionally signed decimal literal or \<open>Infinity\<close>;
  anything else is \<open>NaN\<close>.  The value is the literal's mathematical value, rounded.
\<close>

definition isDigit :: "16 word \<Rightarrow> bool" where
  "isDigit c \<longleftrightarrow> 0x30 \<le> c \<and> c \<le> 0x39"

definition digitOf :: "16 word \<Rightarrow> nat" where
  "digitOf c =
     (if 0x30 \<le> c \<and> c \<le> 0x39 then unat c - 0x30
      else if 0x61 \<le> c \<and> c \<le> 0x66 then unat c - 0x61 + 10
      else if 0x41 \<le> c \<and> c \<le> 0x46 then unat c - 0x41 + 10
      else 16)"

definition digitsVal :: "nat \<Rightarrow> jsstring \<Rightarrow> nat" where
  "digitsVal radix ds = foldl (\<lambda>n c. radix * n + digitOf c) 0 ds"

definition radixDigits :: "nat \<Rightarrow> jsstring \<Rightarrow> nat option" where
  "radixDigits radix ds =
     (if ds \<noteq> [] \<and> list_all (\<lambda>c. digitOf c < radix) ds then Some (digitsVal radix ds) else None)"

definition nonDecimal :: "jsstring \<Rightarrow> nat option" where
  "nonDecimal t = (case t of
      z # x # ds \<Rightarrow>
        if z \<noteq> 0x30 then None
        else if x = 0x78 \<or> x = 0x58 then radixDigits 16 ds
        else if x = 0x6F \<or> x = 0x4F then radixDigits 8 ds
        else if x = 0x62 \<or> x = 0x42 then radixDigits 2 ds
        else None
    | _ \<Rightarrow> None)"

text \<open>An optional exponent part that ends the literal.\<close>

definition signedInteger :: "jsstring \<Rightarrow> int option" where
  "signedInteger s = (case s of
      [] \<Rightarrow> None
    | c # ds \<Rightarrow>
        if c = 0x2B then map_option int (radixDigits 10 ds)
        else if c = 0x2D then map_option (\<lambda>n. - int n) (radixDigits 10 ds)
        else map_option int (radixDigits 10 s))"

definition exponentPart :: "jsstring \<Rightarrow> int option" where
  "exponentPart s = (case s of
      [] \<Rightarrow> Some 0
    | c # r \<Rightarrow> if c = 0x65 \<or> c = 0x45 then signedInteger r else None)"

definition unsignedDecimal :: "jsstring \<Rightarrow> rat option" where
  "unsignedDecimal s =
     (let ip = takeWhile isDigit s; r1 = dropWhile isDigit s in
      case r1 of
        [] \<Rightarrow> if ip = [] then None else Some (of_nat (digitsVal 10 ip))
      | c # r2 \<Rightarrow>
          if c = 0x2E then
            (let fp = takeWhile isDigit r2; r3 = dropWhile isDigit r2 in
             if ip = [] \<and> fp = [] then None
             else (case exponentPart r3 of
                 None \<Rightarrow> None
               | Some e \<Rightarrow>
                   Some ((of_nat (digitsVal 10 ip) + of_nat (digitsVal 10 fp) / 10 ^ length fp)
                         * 10 powi e)))
          else if ip = [] then None
          else (case exponentPart r1 of
              None \<Rightarrow> None
            | Some e \<Rightarrow> Some (of_nat (digitsVal 10 ip) * 10 powi e)))"

definition strUnsigned :: "jsstring \<Rightarrow> jsnum" where
  "strUnsigned s =
     (if s = js ''Infinity'' then PInf
      else case unsignedDecimal s of None \<Rightarrow> NaN | Some q \<Rightarrow> rnd q)"

definition StringToNumber :: "jsstring \<Rightarrow> jsnum" where
  "StringToNumber s =
     (let t = trim s in
      if t = [] then Fin 0
      else case nonDecimal t of
          Some n \<Rightarrow> rnd (of_nat n)
        | None \<Rightarrow>
            (if hd t = 0x2B then strUnsigned (tl t)
             else if hd t = 0x2D then jnegate (strUnsigned (tl t))
             else strUnsigned t))"

section \<open>The numeric helpers (\<open>utils/number.ts\<close>)\<close>

definition safeNumber :: "jsval \<Rightarrow> jsnum" where
  "safeNumber v = (case v of
      JNum n \<Rightarrow> (if isFinite n then n else Fin 0)
    | JStr s \<Rightarrow>
        (let trimmed = trim s in
         if trimmed = [] then Fin 0
         else let n = StringToNumber trimmed in if isFinite n then n else Fin 0)
    | _ \<Rightarrow> Fin 0)"

definition calculateRoi :: "jsnum \<Rightarrow> jsnum \<Rightarrow> jsnum" where
  "calculateRoi revenue time =
     (let rev = safeNumber (JNum revenue); t = safeNumber (JNum time) in
      if \<not> isFinite rev \<or> \<not> isFinite t \<or> jle t (Fin 0) then Fin 0 else jdiv rev t)"

text \<open>\<open>Math.max\<close> of two numbers.\<close>

definition jmax :: "jsnum \<Rightarrow> jsnum \<Rightarrow> jsnum" where
  "jmax a b = (if a = NaN \<or> b = NaN then NaN else if jlt a b then b else a)"

text \<open>
  The formatters of the platform depend on the locale of the browser; they are parameters.
  \<open>toLocaleString v minFD maxFD\<close> stands for
  \<open>v.toLocaleString(undefined, {minimumFractionDigits, maximumFractionDigits})\<close> and
  \<open>intlCurrency currency v\<close> for
  \<open>new Intl.NumberFormat(undefined, {style: 'currency', currency}).format(v)\<close>; both can throw.
\<close>

datatype exn = RangeError | TypeError | SyntaxError | SecurityError

definition formatNumber ::
  "(jsnum \<Rightarrow> jsnum \<Rightarrow> jsnum \<Rightarrow> exn + jsstring) \<Rightarrow> jsnum \<Rightarrow> jsnum option \<Rightarrow> exn + jsstring" where
  "formatNumber toLocaleString n decimals_arg =
     (let decimals = (case decimals_arg of None \<Rightarrow> Fin 2 | Some d \<Rightarrow> d);
          v = (if isFinite n then n else Fin 0)
      in toLocaleString v decimals decimals)"

definition formatCurrency ::
  "(jsstring \<Rightarrow> jsnum \<Rightarrow> exn + jsstring) \<Rightarrow> (jsnum \<Rightarrow> jsnum \<Rightarrow> jsnum \<Rightarrow> exn + jsstring) \<Rightarrow>
   jsnum \<Rightarrow> jsstring option \<Rightarrow> exn + jsstring" where
  "formatCurrency intlCurrency toLocaleString n currency_arg =
     (let currency = (case currency_arg of None \<Rightarrow> js ''USD'' | Some c \<Rightarrow> c);
          v = (if isFinite n then n else Fin 0)
      in case intlCurrency currency v of
           Inr s \<Rightarrow> Inr s
         | Inl _ \<Rightarrow>
             (case formatNumber toLocaleString v None of
                Inl e \<Rightarrow> Inl e
              | Inr s \<Rightarrow> Inr (js ''$'' @ s)))"

text \<open>
  What every platform guarantees of \<open>toLocaleString\<close>: a finite number is formatted with two
  fraction digits without an exception.
\<close>

definition formatsTwoDigits :: "(jsnum \<Rightarrow> jsnum \<Rightarrow> jsnum \<Rightarrow> exn + jsstring) \<Rightarrow> bool" where
  "formatsTwoDigits toLocaleString \<longleftrightarrow>
     (\<forall>x. isFinite x \<longrightarrow> \<not> isl (toLocaleString x (Fin 2) (Fin 2)))"

section \<open>Tasks and the state of \<open>useTasks\<close> (\<open>types.ts\<close>, \<open>App.tsx\<close>)\<close>

text \<open>
  \<open>types.ts\<close> names three priorities (\<open>High\<close>, \<open>Medium\<close>, \<open>Low\<close>) and three statuses, but
  the types are erased at run time: \<open>importCsv\<close> keeps any non-empty string of the file and
  nothing checks the tasks read from storage.  Both fields are strings.
\<close>

record task =
  task_id :: jsstring
  createdAt :: jsnum
  title :: jsstring
  revenue :: jsnum
  time :: jsnum
  roi :: jsnum
  task_notes :: "jsstring option"
  priority :: jsstring
  status :: jsstring

subsection \<open>The initial task list\<close>

text \<open>
  What \<open>JSON.parse\<close> returns: an array or something else (\<open>Array.isArray\<close> tells them
  apart).  The cast \<open>as Task[]\<close> checks nothing, so the elements stay JSON values.
\<close>

datatype json =
    JArray "json list"
  | JObj "(jsstring \<times> json) list"
  | JString jsstring
  | JNumber jsnum
  | JBoolean bool
  | JNullValue

text \<open>
  The initialiser of the \<open>tasks\<close> state.  \<open>getItem\<close> is the outcome of
  \<open>localStorage.getItem(STORAGE_KEY)\<close> (an exception, \<open>null\<close> or a string) and
  \<open>JSON_parse\<close> the parser of the platform.  \<open>initialTasks_try\<close> is the body of the
  \<open>try\<close> block, \<open>initialTasks\<close> adds the \<open>catch\<close>.
\<close>

definition initialTasks_try ::
  "(jsstring \<Rightarrow> exn + json) \<Rightarrow> exn + jsstring option \<Rightarrow> exn + json list" where
  "initialTasks_try JSON_parse getItem =
     (case getItem of
        Inl e \<Rightarrow> Inl e
      | Inr None \<Rightarrow> Inr []
      | Inr (Some raw) \<Rightarrow>
          if raw = [] then Inr []
          else (case JSON_parse raw of
                  Inl e \<Rightarrow> Inl e
                | Inr parsed \<Rightarrow> Inr (case parsed of JArray xs \<Rightarrow> xs | _ \<Rightarrow> [])))"

definition initialTasks ::
  "(jsstring \<Rightarrow> exn + json) \<Rightarrow> exn + jsstring option \<Rightarrow> json list" where
  "initialTasks JSON_parse getItem =
     (case initialTasks_try JSON_parse getItem of Inl _ \<Rightarrow> [] | Inr ts \<Rightarrow> ts)"

subsection \<open>Deleting and restoring a task\<close>

text \<open>
  The three pieces of state of \<open>useTasks\<close>.  Each handler is a function from the state at
  the render it was created in to the state after its updates are applied.
\<close>

record app_state =
  tasks :: "task list"
  lastDeleted :: "task option"
  snackbarOpen :: bool

definition deleteTask :: "jsstring \<Rightarrow> app_state \<Rightarrow> app_state" where
  "deleteTask i s =
     (let prev = tasks s;
          t = find (\<lambda>x. task_id x = i) prev;
          s1 = (case t of
                  Some x \<Rightarrow> s\<lparr>lastDeleted := Some x, snackbarOpen := True\<rparr>
                | None \<Rightarrow> s)
      in s1\<lparr>tasks := filter (\<lambda>x. task_id x \<noteq> i) prev\<rparr>)"

definition undoDelete :: "app_state \<Rightarrow> app_state" where
  "undoDelete s =
     (case lastDeleted s of
        None \<Rightarrow> s
      | Some t \<Rightarrow> s\<lparr>tasks := t # tasks s, lastDeleted := None, snackbarOpen := False\<rparr>)"

definition onSnackbarClose :: "app_state \<Rightarrow> app_state" where
  "onSnackbarClose s = s\<lparr>snackbarOpen := False, lastDeleted := None\<rparr>"

subsection \<open>CSV fields\<close>

definition escapeCsv :: "jsstring \<Rightarrow> jsstring" where
  "escapeCsv v =
     (if 0x2C \<in> set v \<or> 0x22 \<in> set v \<or> 0xA \<in> set v
      then [0x22] @ concat (map (\<lambda>c. if c = 0x22 then [0x22, 0x22] else [c]) v) @ [0x22]
      else v)"

text \<open>\<open>Array.prototype.join\<close> on an array of strings.\<close>

fun join :: "jsstring \<Rightarrow> jsstring list \<Rightarrow> jsstring" where
  "join sep [] = []"
| "join sep [x] = x"
| "join sep (x # y # ys) = x @ sep @ join sep (y # ys)"

text \<open>
  The loop of \<open>splitCsvLine\<close> over the rest of the line, with the variables \<open>res\<close>,
  \<open>cur\<close> and \<open>inQ\<close>; reading \<open>line[i + 1]\<close> past the end gives \<open>undefined\<close>, which is not
  a quote.
\<close>

fun splitCsvLoop :: "jsstring list \<Rightarrow> jsstring \<Rightarrow> bool \<Rightarrow> jsstring \<Rightarrow> jsstring list" where
  "splitCsvLoop res cur inQ [] = res @ [cur]"
| "splitCsvLoop res cur True (ch # rest) =
     (if ch = 0x22 then
        (case rest of
           [] \<Rightarrow> splitCsvLoop res cur False rest
         | c2 # rest' \<Rightarrow>
             if c2 = 0x22 then splitCsvLoop res (cur @ [0x22]) True rest'
             else splitCsvLoop res cur False rest)
      else splitCsvLoop res (cur @ [ch]) True rest)"
| "splitCsvLoop res cur False (ch # rest) =
     (if ch = 0x2C then splitCsvLoop (res @ [cur]) [] False rest
      else if ch = 0x22 then splitCsvLoop res cur True rest
      else splitCsvLoop res (cur @ [ch]) False rest)"

definition splitCsvLine :: "jsstring \<Rightarrow> jsstring list" where
  "splitCsvLine line = map trim (splitCsvLoop [] [] False line)"

subsection \<open>The sorted and filtered view\<close>

text \<open>
  What \<open>priRank[p]\<close> is for the object literal \<open>{High: 3, Medium: 2, Low: 1}\<close>: one of its
  three numbers, a member inherited from \<open>Object.prototype\<close> (a function or the prototype
  object itself, a different one for each name), or \<open>undefined\<close>.
\<close>

datatype jsprop = PNum jsnum | PInherited jsstring | PUndefined

definition objectPrototypeKeys :: "jsstring list" where
  "objectPrototypeKeys =
     map js [''constructor'', ''hasOwnProperty'', ''isPrototypeOf'', ''propertyIsEnumerable'',
       ''toLocaleString'', ''toString'', ''valueOf'', ''__proto__'', ''__defineGetter__'',
       ''__defineSetter__'', ''__lookupGetter__'', ''__lookupSetter__'']"

definition priRank :: "jsstring \<Rightarrow> jsprop" where
  "priRank p =
     (if p = js ''High'' then PNum (Fin 3)
      else if p = js ''Medium'' then PNum (Fin 2)
      else if p = js ''Low'' then PNum (Fin 1)
      else if p \<in> set objectPrototypeKeys then PInherited p
      else PUndefined)"

text \<open>
  \<open>x !== y\<close> on two such values: numbers by value, objects by identity, and \<open>undefined\<close>
  is equal to itself only.
\<close>

definition strictNe :: "jsprop \<Rightarrow> jsprop \<Rightarrow> bool" where
  "strictNe x y = (case (x, y) of (PNum a, PNum b) \<Rightarrow> \<not> jeq a b | _ \<Rightarrow> x \<noteq> y)"

text \<open>
  The conversion to a number that \<open>-\<close> applies to its operands: \<open>undefined\<close>, a function and
  a plain object all give \<open>NaN\<close>.
\<close>

definition toNumber :: "jsprop \<Rightarrow> jsnum" where
  "toNumber x = (case x of PNum a \<Rightarrow> a | _ \<Rightarrow> NaN)"

text \<open>\<open>Number(a.roi || 0)\<close>.\<close>

definition roiKey :: "task \<Rightarrow> jsnum" where
  "roiKey a = (if truthy_num (roi a) then roi a else Fin 0)"

text \<open>
  The comparator handed to \<open>sort\<close>.  \<open>toLowerCase\<close> and \<open>localeCompare\<close> are the
  platform's (Unicode case mapping and the collation of the browser's locale).
\<close>

definition compareTasks ::
  "(jsstring \<Rightarrow> jsstring) \<Rightarrow> (jsstring \<Rightarrow> jsstring \<Rightarrow> jsnum) \<Rightarrow> task \<Rightarrow> task \<Rightarrow> jsnum" where
  "compareTasks toLowerCase localeCompare a b =
     (let ar = roiKey a; br = roiKey b in
      if \<not> jeq ar br then jsub br ar
      else let ap = priRank (priority a); bp = priRank (priority b) in
        if strictNe ap bp then jsub (toNumber bp) (toNumber ap)
        else let at' = toLowerCase (title a); bt' = toLowerCase (title b) in
          if at' \<noteq> bt' then localeCompare at' bt'
          else jsub (createdAt b) (createdAt a))"

text \<open>
  \<open>Array.prototype.sort\<close> is stable: two elements on which the comparator is 0 in both
  directions stay in the order they came in.  It is modelled by the stable insertion sort, in
  which an element moves behind another one only when the comparator is positive on them.
  For a comparator that is consistent every conforming sort returns the list of the model.
  Where the comparator is \<open>NaN\<close> ECMAScript leaves the order to the implementation; the
  engines read \<open>NaN\<close> as 0, and the model is used on such a comparator for lists of two
  elements only, which then stay as they are.
\<close>

fun sortInsert :: "('a \<Rightarrow> 'a \<Rightarrow> jsnum) \<Rightarrow> 'a \<Rightarrow> 'a list \<Rightarrow> 'a list" where
  "sortInsert cmp x [] = [x]"
| "sortInsert cmp x (y # ys) =
     (if jlt (Fin 0) (cmp x y) then y # sortInsert cmp x ys else x # y # ys)"

definition jsSort :: "('a \<Rightarrow> 'a \<Rightarrow> jsnum) \<Rightarrow> 'a list \<Rightarrow> 'a list" where
  "jsSort cmp xs = foldr (sortInsert cmp) xs []"

text \<open>The filters are \<open>'All'\<close> or a priority, and \<open>'All'\<close> or a status.\<close>

definition sortedFiltered ::
  "(jsstring \<Rightarrow> jsstring) \<Rightarrow> (jsstring \<Rightarrow> jsstring \<Rightarrow> jsnum) \<Rightarrow>
   jsstring \<Rightarrow> jsstring \<Rightarrow> jsstring \<Rightarrow> task list \<Rightarrow> task list" where
  "sortedFiltered toLowerCase localeCompare priorityFilter statusFilter search ts =
     jsSort (compareTasks toLowerCase localeCompare)
       (filter (\<lambda>t.
          (priorityFilter = js ''All'' \<or> priority t = priorityFilter) \<and>
          (statusFilter = js ''All'' \<or> status t = statusFilter) \<and>
          sublist (toLowerCase search) (toLowerCase (title t))) ts)"

text \<open>
  The number fields of a task hold binary64 values.
\<close>

definition wf_task :: "task \<Rightarrow> bool" where
  "wf_task t \<longleftrightarrow> wf_num (roi t) \<and> wf_num (createdAt t) \<and> wf_num (revenue t) \<and> wf_num (time t)"

text \<open>
  The four-key order as it is described, on the fields of the tasks: \<open>a\<close> comes before \<open>b\<close>
  when its ROI is higher; or the ROIs are equal and its priority rank (High 3, Medium 2,
  Low 1) is higher; or those are equal too and its lower-cased title comes first in the
  collation; or the collation ties the titles as well and it was created later.
\<close>

definition rankOf :: "jsstring \<Rightarrow> nat" where
  "rankOf p =
     (if p = js ''High'' then 3 else if p = js ''Medium'' then 2 else if p = js ''Low'' then 1
      else 0)"

definition fourKeyBefore ::
  "(jsstring \<Rightarrow> jsstring) \<Rightarrow> (jsstring \<Rightarrow> jsstring \<Rightarrow> jsnum) \<Rightarrow> task \<Rightarrow> task \<Rightarrow> bool" where
  "fourKeyBefore toLowerCase localeCompare a b \<longleftrightarrow>
     jlt (roi b) (roi a) \<or>
     (jeq (roi a) (roi b) \<and>
      (rankOf (priority b) < rankOf (priority a) \<or>
       (rankOf (priority a) = rankOf (priority b) \<and>
        (jlt (localeCompare (toLowerCase (title a)) (toLowerCase (title b))) (Fin 0) \<or>
         (\<not> jlt (localeCompare (toLowerCase (title a)) (toLowerCase (title b))) (Fin 0) \<and>
          \<not> jlt (Fin 0) (localeCompare (toLowerCase (title a)) (toLowerCase (title b))) \<and>
          jlt (createdAt b) (createdAt a))))))"

text \<open>
  The collation ties two strings exactly when they are the same string.
\<close>

definition tiesOnlyIdentical :: "(jsstring \<Rightarrow> jsstring \<Rightarrow> jsnum) \<Rightarrow> jsstring \<Rightarrow> jsstring \<Rightarrow> bool" where
  "tiesOnlyIdentical localeCompare s t \<longleftrightarrow>
     ((\<not> jlt (localeCompare s t) (Fin 0) \<and> \<not> jlt (Fin 0) (localeCompare s t)) = (s = t))"

text \<open>Two tasks agree on all four keys: ROI, priority rank, lower-cased title, \<open>createdAt\<close>.\<close>

definition sameKeys :: "(jsstring \<Rightarrow> jsstring) \<Rightarrow> task \<Rightarrow> task \<Rightarrow> bool" where
  "sameKeys toLowerCase a b \<longleftrightarrow>
     jeq (roi a) (roi b) \<and> \<not> strictNe (priRank (priority a)) (priRank (priority b)) \<and>
     toLowerCase (title a) = toLowerCase (title b) \<and> jeq (createdAt a) (createdAt b)"

text \<open>
  What ECMA-262 requires of \<open>localeCompare\<close> on every platform: it returns 0 on strings that
  are canonically equivalent in Unicode.  The letter \<open>a\<close> followed by the combining acute
  accent \<open>U+0301\<close> and the single letter \<open>U+00E1\<close> are such a pair, and both are their own
  lower case.
\<close>

definition canonicalTie :: "(jsstring \<Rightarrow> jsstring) \<Rightarrow> (jsstring \<Rightarrow> jsstring \<Rightarrow> jsnum) \<Rightarrow> bool" where
  "canonicalTie toLowerCase localeCompare \<longleftrightarrow>
     toLowerCase [0x61, 0x301] = [0x61, 0x301] \<and> toLowerCase [0xE1] = [0xE1] \<and>
     localeCompare [0x61, 0x301] [0xE1] = Fin 0 \<and> localeCompare [0xE1] [0x61, 0x301] = Fin 0"

subsection \<open>Importing tasks from CSV\<close>

text \<open>
  A parsed row (\<open>TaskCsvRow\<close>) and the task \<open>importCsv\<close> makes of row \<open>idx\<close>.  \<open>now\<close> is
  \<open>Date.now()\<close>; \<open>mkId idx\<close> stands for the id string, which ends in random characters,
  and \<open>defaultTitle idx\<close> for \<open>`Task ${idx + 1}`\<close>.  The priority and the status of the row
  are kept as they are unless they are missing or empty.
\<close>

record csv_row =
  row_title :: jsstring
  row_revenue :: jsstring
  row_time :: jsstring
  row_notes :: "jsstring option"
  row_priority :: "jsstring option"
  row_status :: "jsstring option"

definition importCsvRow ::
  "(nat \<Rightarrow> jsstring) \<Rightarrow> (nat \<Rightarrow> jsstring) \<Rightarrow> jsnum \<Rightarrow> nat \<Rightarrow> csv_row \<Rightarrow> task" where
  "importCsvRow mkId defaultTitle now idx r =
     (let revenue' = safeNumber (JStr (row_revenue r));
          time' = safeNumber (JStr (row_time r));
          roi' = calculateRoi revenue' time'
      in \<lparr>task_id = mkId idx,
          createdAt = jadd now (Fin (of_nat idx)),
          title = (if trim (row_title r) = [] then defaultTitle idx else trim (row_title r)),
          revenue = revenue',
          time = time',
          roi = roi',
          task_notes = Some (case row_notes r of None \<Rightarrow> [] | Some n \<Rightarrow> trim n),
          priority = (case row_priority r of
                        None \<Rightarrow> js ''Medium''
                      | Some p \<Rightarrow> if p = [] then js ''Medium'' else p),
          status = (case row_status r of
                      None \<Rightarrow> js ''Todo''
                    | Some st \<Rightarrow> if st = [] then js ''Todo'' else st)\<rparr>)"

definition importCsv ::
  "(nat \<Rightarrow> jsstring) \<Rightarrow> (nat \<Rightarrow> jsstring) \<Rightarrow> jsnum \<Rightarrow> csv_row list \<Rightarrow> app_state \<Rightarrow> app_state" where
  "importCsv mkId defaultTitle now rows s =
     s\<lparr>tasks := map (\<lambda>(idx, r). importCsvRow mkId defaultTitle now idx r) (enumerate 0 rows)
                 @ tasks s\<rparr>"

subsection \<open>The summary\<close>




definition totalRevenue :: "task list \<Rightarrow> jsnum" where
  "totalRevenue ts = foldl (\<lambda>s t. jadd s (safeNumber (JNum (revenue t)))) (Fin 0) ts"

definition totalTime :: "task list \<Rightarrow> jsnum" where
  "totalTime ts = foldl (\<lambda>s t. jadd s (jmax (Fin 0) (safeNumber (JNum (time t))))) (Fin 0) ts"

definition efficiency :: "task list \<Rightarrow> jsnum" where
  "efficiency ts =
     (if jgt (totalTime ts) (Fin 0) then jdiv (totalRevenue ts) (totalTime ts) else Fin 0)"



section \<open>Sample data\<close>

text \<open>Concrete tasks, states and platform functions on which the theorems below are instantiated.\<close>

definition demo_task :: "jsstring \<Rightarrow> jsnum \<Rightarrow> task" where
  "demo_task i c = \<lparr>task_id = i, createdAt = c, title = js ''T'', revenue = Fin 100, time = Fin 4,
     roi = Fin 25, task_notes = None, priority = js ''Medium'', status = js ''Todo''\<rparr>"

definition demo_state :: app_state where
  "demo_state = \<lparr>tasks = [demo_task (js ''a'') (Fin 1), demo_task (js ''b'') (Fin 2)],
     lastDeleted = None, snackbarOpen = False\<rparr>"

definition demo_parse :: "jsstring \<Rightarrow> exn + json" where
  "demo_parse s =
     (if s = js ''[]'' then Inr (JArray [])
      else if s = js ''[1]'' then Inr (JArray [JNumber (Fin 1)])
      else if s = js ''{}'' then Inr (JObj [])
      else Inl SyntaxError)"

definition demo_toLocaleString :: "jsnum \<Rightarrow> jsnum \<Rightarrow> jsnum \<Rightarrow> exn + jsstring" where
  "demo_toLocaleString v minFD maxFD =
     (if minFD = Fin 2 \<and> maxFD = Fin 2 then
        (if v = Fin 0 then Inr (js ''0.00'') else if v = Fin 5 then Inr (js ''5.00'') else Inr (js ''?''))
      else Inl RangeError)"

definition demo_intlCurrency :: "jsstring \<Rightarrow> jsnum \<Rightarrow> exn + jsstring" where
  "demo_intlCurrency currency v =
     (if currency = js ''USD'' then (if v = Fin 5 then Inr (js ''$5.00'') else Inr (js ''$0.00''))
      else Inl RangeError)"



text \<open>A case mapping and a collation to instantiate the comparator with.\<close>

definition asciiLower :: "jsstring \<Rightarrow> jsstring" where
  "asciiLower s = map (\<lambda>c. if 0x41 \<le> c \<and> c \<le> 0x5A then c + 0x20 else c) s"

definition codeUnitCompare :: "jsstring \<Rightarrow> jsstring \<Rightarrow> jsnum" where
  "codeUnitCompare s t = (if s < t then Fin (- 1) else if t < s then Fin 1 else Fin 0)"

definition task_low_B :: task where
  "task_low_B = \<lparr>task_id = js ''1'', createdAt = Fin 1, title = js ''B'', revenue = Fin 5,
     time = Fin 1, roi = Fin 5, task_notes = None, priority = js ''Low'', status = js ''Todo''\<rparr>"

definition task_high_A :: task where
  "task_high_A = \<lparr>task_id = js ''2'', createdAt = Fin 2, title = js ''A'', revenue = Fin 5,
     time = Fin 1, roi = Fin 5, task_notes = None, priority = js ''High'', status = js ''Todo''\<rparr>"

text \<open>
  Two tasks that differ in the creation time and in the spelling of the same title: the
  later one spells it with the combining accent.
\<close>

definition tie_new :: task where
  "tie_new = (demo_task (js ''n'') (Fin 2))\<lparr>title := [0x61, 0x301]\<rparr>"

definition tie_old :: task where
  "tie_old = (demo_task (js ''o'') (Fin 1))\<lparr>title := [0xE1]\<rparr>"

text \<open>
  A collation that returns 0 on canonically equivalent strings as far as this pair goes: it
  compares by code units after composing \<open>a\<close> and \<open>U+0301\<close> into \<open>U+00E1\<close>.
\<close>

fun compose :: "jsstring \<Rightarrow> jsstring" where
  "compose (a # b # r) =
     (if a = 0x61 \<and> b = 0x301 then 0xE1 # compose r else a # compose (b # r))"
| "compose r = r"

definition canonCompare :: "jsstring \<Rightarrow> jsstring \<Rightarrow> jsnum" where
  "canonCompare s t = codeUnitCompare (compose s) (compose t)"

text \<open>
  Two rows of a CSV file that differ in the priority, one of them with a priority that is
  none of the three, and the tasks \<open>importCsv\<close> makes of them.
\<close>

definition row_urgent :: csv_row where
  "row_urgent = \<lparr>row_title = js ''Deal'', row_revenue = js ''10'', row_time = js ''2'',
     row_notes = None, row_priority = Some (js ''Urgent''), row_status = None\<rparr>"

definition row_high :: csv_row where
  "row_high = \<lparr>row_title = js ''Deal'', row_revenue = js ''10'', row_time = js ''2'',
     row_notes = None, row_priority = Some (js ''High''), row_status = None\<rparr>"

definition demo_mkId :: "nat \<Rightarrow> jsstring" where
  "demo_mkId idx = (if idx = 0 then js ''1000-ab12'' else js ''1001-cd34'')"

definition demo_defaultTitle :: "nat \<Rightarrow> jsstring" where
  "demo_defaultTitle idx = (if idx = 0 then js ''Task 1'' else js ''Task 2'')"

definition urgent_task :: task where
  "urgent_task = importCsvRow demo_mkId demo_defaultTitle (Fin 1000) 0 row_urgent"

definition high_task :: task where
  "high_task = importCsvRow demo_mkId demo_defaultTitle (Fin 1000) 1 row_high"

section \<open>Properties of the number model\<close>

lemma bitlen_lower: "0 < n \<Longrightarrow> (2::rat) powi (bitlen n - 1) \<le> of_int n"
proof -
  assume n: "0 < n"
  have b: "1 \<le> bitlen n" using n by (simp add: bitlen_alt_def)
  have "(2::int) ^ nat (bitlen n - 1) \<le> n" using bitlen_bounds[OF n] by simp
  then have "(of_int ((2::int) ^ nat (bitlen n - 1)) :: rat) \<le> of_int n"
    by (simp only: of_int_le_iff)
  then show ?thesis using b by (simp add: power_int_def)
qed

lemma bitlen_upper: "0 < n \<Longrightarrow> (of_int n :: rat) < 2 powi (bitlen n)"
proof -
  assume n: "0 < n"
  have "n < (2::int) ^ nat (bitlen n)" using bitlen_bounds[OF n] by simp
  then have "(of_int n :: rat) < of_int ((2::int) ^ nat (bitlen n))"
    by (simp only: of_int_less_iff)
  then show ?thesis using bitlen_nonneg[of n] by (simp add: power_int_def)
qed

lemma flog2_bounds:
  assumes "0 < q"
  shows "2 powi (flog2 q) \<le> q" and "q < 2 powi (flog2 q + 1)"
proof -
  obtain n d where nd: "quotient_of q = (n, d)" by (cases "quotient_of q")
  have d: "0 < d" using nd quotient_of_denom_pos by blast
  have q: "q = of_int n / of_int d" using nd quotient_of_div by blast
  have n: "0 < n" using assms d q by (simp add: zero_less_divide_iff)
  let ?k = "bitlen n - bitlen d"
  have dpos: "(0::rat) < of_int d" using d by simp
  have lo: "(2::rat) powi (?k - 1) \<le> q"
  proof -
    have "(2::rat) powi (?k - 1) * of_int d \<le> 2 powi (?k - 1) * 2 powi (bitlen d)"
      using bitlen_upper[OF d] by (simp add: less_imp_le)
    also have "\<dots> = 2 powi (bitlen n - 1)"
      by (simp add: power_int_add[symmetric])
    also have "\<dots> \<le> of_int n" by (rule bitlen_lower[OF n])
    finally show ?thesis using dpos by (simp add: q pos_le_divide_eq)
  qed
  have hi: "q < (2::rat) powi (?k + 1)"
  proof -
    have "of_int n < (2::rat) powi (bitlen n)" by (rule bitlen_upper[OF n])
    also have "\<dots> = 2 powi (?k + 1) * 2 powi (bitlen d - 1)"
      by (simp add: power_int_add[symmetric])
    also have "\<dots> \<le> 2 powi (?k + 1) * of_int d"
      using bitlen_lower[OF d] by simp
    finally show ?thesis using dpos by (simp add: q pos_divide_less_eq)
  qed
  show "2 powi (flog2 q) \<le> q" using lo by (simp add: flog2_def nd Let_def)
  show "q < 2 powi (flog2 q + 1)" using hi by (auto simp add: flog2_def nd not_le Let_def)
qed

lemma flog2_le: "0 < q \<Longrightarrow> q < 2 powi (k + 1) \<Longrightarrow> flog2 q \<le> k"
proof (rule ccontr)
  assume q: "0 < q" and lt: "q < 2 powi (k + 1)" and n: "\<not> flog2 q \<le> k"
  then have "k + 1 \<le> flog2 q" by simp
  then have "(2::rat) powi (k + 1) \<le> 2 powi (flog2 q)"
    by (intro power_int_increasing) simp_all
  also have "\<dots> \<le> q" by (rule flog2_bounds(1)[OF q])
  finally show False using lt by simp
qed

lemma flog2_ge: "0 < q \<Longrightarrow> 2 powi k \<le> q \<Longrightarrow> k \<le> flog2 q"
proof (rule ccontr)
  assume q: "0 < q" and le: "2 powi k \<le> q" and n: "\<not> k \<le> flog2 q"
  then have "flog2 q + 1 \<le> k" by simp
  then have "(2::rat) powi (flog2 q + 1) \<le> 2 powi k"
    by (intro power_int_increasing) simp_all
  then show False using flog2_bounds(2)[OF q] le by simp
qed

lemma round_even_of_int [simp]: "round_even (of_int n) = n"
  by (simp add: round_even_def)

lemma round_even_ge_floor: "\<lfloor>x\<rfloor> \<le> round_even x"
  by (simp add: round_even_def Let_def)

lemma round_even_pos: "1 \<le> x \<Longrightarrow> 1 \<le> round_even x"
proof -
  assume "1 \<le> x"
  then have "1 \<le> \<lfloor>x\<rfloor>" by simp
  then show ?thesis using round_even_ge_floor[of x] by linarith
qed

lemma ulp_scaled_ge_1:
  assumes "2 powi (- 1074) \<le> a"
  shows "1 \<le> a / 2 powi (ulp_exp a)"
proof -
  have a: "0 < a" using assms by (rule less_le_trans[rotated]) simp
  have "2 powi (ulp_exp a) \<le> a"
  proof (cases "- 1022 \<le> flog2 a")
    case True
    then have "ulp_exp a \<le> flog2 a" by (simp add: ulp_exp_def)
    then have "(2::rat) powi (ulp_exp a) \<le> 2 powi (flog2 a)"
      by (intro power_int_increasing) simp_all
    then show ?thesis using flog2_bounds(1)[OF a] by simp
  next
    case False
    then have "ulp_exp a = - 1074" by (simp add: ulp_exp_def)
    then show ?thesis using assms by simp
  qed
  then show ?thesis by (simp add: pos_le_divide_eq)
qed

text \<open>The sign of a rounded value: what is at least the least subnormal stays positive.\<close>

lemma rnd_pos:
  assumes "2 powi (- 1074) \<le> q"
  shows "rnd q = PInf \<or> (\<exists>r. rnd q = Fin r \<and> 0 < r)"
proof -
  have q: "0 < q" using assms by (rule less_le_trans[rotated]) simp
  have "1 \<le> round_even (q / 2 powi (ulp_exp q))"
    by (rule round_even_pos[OF ulp_scaled_ge_1[OF assms]])
  then have "(0::rat) < of_int (round_even (q / 2 powi (ulp_exp q))) * 2 powi (ulp_exp q)"
    by (simp add: zero_less_mult_iff)
  then show ?thesis using q by (simp add: rnd_def Let_def)
qed

lemma rnd_minus:
  "rnd (- q) = (case rnd q of Fin r \<Rightarrow> Fin (- r) | PInf \<Rightarrow> NInf | NInf \<Rightarrow> PInf | NaN \<Rightarrow> NaN)"
  by (simp add: rnd_def Let_def sgn_if)

lemma rnd_neg:
  assumes "q \<le> - (2 powi (- 1074))"
  shows "rnd q = NInf \<or> (\<exists>r. rnd q = Fin r \<and> r < 0)"
proof -
  have "2 powi (- 1074) \<le> - q" using assms by simp
  from rnd_pos[OF this] show ?thesis
    by (auto simp add: rnd_minus[of q] split: jsnum.splits)
qed

lemma rnd_0 [simp]: "rnd 0 = Fin 0"
  by (simp add: rnd_def)

text \<open>Representable values round to themselves.\<close>

lemma rnd_exact:
  assumes q: "q = of_int m * 2 powi e" and m: "\<bar>m\<bar> < 2 ^ 53" and e: "- 1074 \<le> e" "e \<le> 971"
  shows "rnd q = Fin q"
proof (cases "q = 0")
  case True
  then show ?thesis by (simp add: rnd_def)
next
  case False
  define a where "a = \<bar>q\<bar>"
  define E where "E = ulp_exp a"
  have a: "0 < a" using False by (simp add: a_def)
  have aeq: "a = of_int \<bar>m\<bar> * 2 powi e" by (simp add: a_def q abs_mult)
  have "(of_int \<bar>m\<bar> :: rat) < of_int (2 ^ 53)" using m by (simp only: of_int_less_iff)
  then have "(of_int \<bar>m\<bar> :: rat) < 2 powi 53" by simp
  then have "a < 2 powi 53 * 2 powi e" by (simp add: aeq del: power_int_numeral)
  also have "\<dots> = 2 powi (53 + e)" by (simp add: power_int_add del: power_int_numeral)
  finally have ub: "a < 2 powi (53 + e)" .
  then have "a < 2 powi (52 + e + 1)" by (simp add: add.commute add.left_commute)
  then have "flog2 a \<le> 52 + e" using a by (intro flog2_le)
  then have le: "E \<le> e" using e by (simp add: E_def ulp_exp_def)
  define j where "j = nat (e - E)"
  have ej: "e = E + int j" using le by (simp add: j_def)
  have pe: "(2::rat) powi e = 2 powi E * 2 powi (int j)"
    by (subst ej) (simp add: power_int_add del: power_int_of_nat)
  have "a / 2 powi E = of_int \<bar>m\<bar> * 2 powi (int j)"
    by (simp add: aeq pe del: power_int_of_nat)
  also have "\<dots> = of_int (\<bar>m\<bar> * 2 ^ j)" by simp
  finally have sc: "a / 2 powi E = of_int (\<bar>m\<bar> * 2 ^ j)" .
  have "round_even (a / 2 powi E) = \<bar>m\<bar> * 2 ^ j"
    by (simp only: sc round_even_of_int)
  then have "of_int (round_even (a / 2 powi E)) * 2 powi E = a / 2 powi E * 2 powi E"
    by (simp only: sc)
  then have bk: "of_int (round_even (a / 2 powi E)) * 2 powi E = a"
    by simp
  have "(2::rat) powi (53 + e) \<le> 2 powi 1024"
    using e by (intro power_int_increasing) simp_all
  then have nov: "\<not> 2 powi 1024 \<le> a" using ub by (simp del: power_int_numeral)
  have sg: "sgn q * a = q" by (simp add: a_def sgn_if)
  have "rnd q = (if 2 powi 1024 \<le> a then (if 0 < q then PInf else NInf) else Fin (sgn q * a))"
    using False bk
    by (simp add: rnd_def Let_def a_def[symmetric] E_def[symmetric] del: power_int_numeral)
  then show ?thesis using nov sg by (simp del: power_int_numeral)
qed

text \<open>Integers below \<open>2^53\<close> in magnitude are binary64 values.\<close>

lemma rnd_of_int: "\<bar>m\<bar> < 2 ^ 53 \<Longrightarrow> rnd (of_int m) = Fin (of_int m)"
  using rnd_exact[of "of_int m" m 0] by simp

text \<open>Magnitudes from \<open>2^1024\<close> on overflow.\<close>

lemma rnd_overflow:
  assumes "2 powi 1024 \<le> q"
  shows "rnd q = PInf"
proof -
  have q: "0 < q" using assms by (rule less_le_trans[rotated]) simp
  define L where "L = flog2 q"
  define E where "E = ulp_exp q"
  have L: "1024 \<le> L" unfolding L_def using q assms by (rule flog2_ge)
  then have E: "E = L - 52" by (simp add: E_def ulp_exp_def L_def)
  have "(2::rat) powi 52 * 2 powi E = 2 powi L"
    by (simp add: E power_int_add[symmetric] del: power_int_numeral)
  also have "\<dots> \<le> q" unfolding L_def by (rule flog2_bounds(1)[OF q])
  finally have "(2::rat) powi 52 \<le> q / 2 powi E" by (simp add: pos_le_divide_eq)
  then have "of_int (2 ^ 52) \<le> q / 2 powi E" by simp
  then have "(2::int) ^ 52 \<le> \<lfloor>q / 2 powi E\<rfloor>" by (simp only: le_floor_iff)
  then have "(2::int) ^ 52 \<le> round_even (q / 2 powi E)"
    using round_even_ge_floor[of "q / 2 powi E"] by linarith
  then have "(of_int ((2::int) ^ 52) :: rat) \<le> of_int (round_even (q / 2 powi E))"
    by (simp only: of_int_le_iff)
  then have "(2::rat) powi 52 * 2 powi E \<le> of_int (round_even (q / 2 powi E)) * 2 powi E"
    by (intro mult_right_mono) simp_all
  moreover have "(2::rat) powi 1024 \<le> 2 powi 52 * 2 powi E"
    using L by (simp add: E power_int_add[symmetric] power_int_increasing del: power_int_numeral)
  ultimately have "(2::rat) powi 1024 \<le> of_int (round_even (q / 2 powi E)) * 2 powi E"
    by (rule order_trans[rotated])
  then show ?thesis using q
    by (simp add: rnd_def Let_def E_def[symmetric] del: power_int_numeral)
qed

lemma round_even_le_ceiling: "round_even x \<le> \<lceil>x\<rceil>"
  by (auto simp add: round_even_def Let_def ceiling_altdef)

lemma round_even_nonneg: "0 \<le> x \<Longrightarrow> 0 \<le> round_even x"
  using round_even_ge_floor[of x] by (simp add: order_trans[of 0 "\<lfloor>x\<rfloor>"])

text \<open>Rounding gives binary64 values: rounding twice is rounding once.\<close>

lemma rnd_idem:
  assumes "rnd q = Fin r"
  shows "rnd r = Fin r"
proof (cases "q = 0")
  case True
  then show ?thesis using assms by simp
next
  case False
  define a where "a = \<bar>q\<bar>"
  define L where "L = flog2 a"
  define E where "E = ulp_exp a"
  define n where "n = round_even (a / 2 powi E)"
  define sg :: int where "sg = (if 0 < q then 1 else - 1)"
  have a: "0 < a" using False by (simp add: a_def)
  have sg: "sgn q = of_int sg" using False by (simp add: sg_def sgn_if)
  have EL: "L - 52 \<le> E" and E74: "- 1074 \<le> E" by (simp_all add: E_def ulp_exp_def L_def)
  have nov: "\<not> 2 powi 1024 \<le> of_int n * (2::rat) powi E"
    and r: "r = sgn q * (of_int n * 2 powi E)"
    using assms False
    by (simp_all add: rnd_def Let_def a_def[symmetric] E_def[symmetric] n_def[symmetric]
        split: if_splits del: power_int_numeral)
  have n0: "0 \<le> n" unfolding n_def using a by (intro round_even_nonneg) simp
  have "a < 2 powi (L + 1)" unfolding L_def by (rule flog2_bounds(2)[OF a])
  also have "\<dots> \<le> 2 powi (E + 53)" using EL by (intro power_int_increasing) simp_all
  also have "\<dots> = 2 powi 53 * 2 powi E"
    by (simp add: power_int_add del: power_int_numeral)
  finally have "a / 2 powi E < 2 powi 53" by (simp add: pos_divide_less_eq del: power_int_numeral)
  then have "a / 2 powi E \<le> of_int (2 ^ 53)" by simp
  then have "\<lceil>a / 2 powi E\<rceil> \<le> 2 ^ 53" by (simp only: ceiling_le_iff)
  then have n53: "n \<le> 2 ^ 53" unfolding n_def using round_even_le_ceiling[of "a / 2 powi E"] by linarith
  show ?thesis
  proof (cases "n = 0")
    case True
    then show ?thesis using r by simp
  next
    case nz: False
    then have n1: "1 \<le> n" using n0 by simp
    have E971: "E < 972"
    proof (rule ccontr)
      assume "\<not> E < 972"
      then have E972: "972 \<le> E" by simp
      then have EeqL: "E = L - 52" by (simp add: E_def ulp_exp_def L_def)
      have "(2::rat) powi 52 * 2 powi E = 2 powi L"
        by (simp add: EeqL power_int_add[symmetric] del: power_int_numeral)
      also have "\<dots> \<le> a" unfolding L_def by (rule flog2_bounds(1)[OF a])
      finally have "of_int (2 ^ 52) \<le> a / 2 powi E" by (simp add: pos_le_divide_eq)
      then have "(2::int) ^ 52 \<le> \<lfloor>a / 2 powi E\<rfloor>" by (simp only: le_floor_iff)
      then have "(2::int) ^ 52 \<le> n"
        unfolding n_def using round_even_ge_floor[of "a / 2 powi E"] by linarith
      then have "(of_int ((2::int) ^ 52) :: rat) \<le> of_int n" by (simp only: of_int_le_iff)
      then have le1: "(2::rat) powi 52 * 2 powi E \<le> of_int n * 2 powi E"
        by (intro mult_right_mono) simp_all
      have "(2::rat) powi 1024 \<le> 2 powi (52 + E)"
        using E972 by (intro power_int_increasing) simp_all
      then have "(2::rat) powi 1024 \<le> 2 powi 52 * 2 powi E"
        by (simp add: power_int_add del: power_int_numeral)
      then have "(2::rat) powi 1024 \<le> of_int n * 2 powi E"
        using le1 by (rule order_trans)
      then show False using nov by blast
    qed
    show ?thesis
    proof (cases "n = 2 ^ 53")
      case False
      then have "\<bar>sg * n\<bar> < 2 ^ 53" using n53 n0 by (simp add: sg_def abs_mult)
      moreover have "r = of_int (sg * n) * 2 powi E" by (simp add: r sg)
      ultimately show ?thesis using E971 E74 by (intro rnd_exact[of r "sg * n" E]) simp_all
    next
      case True
      have "\<not> E = 971"
      proof
        assume "E = 971"
        then have "of_int n * (2::rat) powi E = 2 powi 1024" by (simp add: True)
        then show False using nov by (simp del: power_int_numeral)
      qed
      then have E970: "E + 1 \<le> 971" using E971 by simp
      have "(2::rat) powi (E + 1) = 2 * 2 powi E" by (simp add: power_int_add)
      then have "r = of_int (sg * 2 ^ 52) * 2 powi (E + 1)" by (simp add: r sg True)
      moreover have "\<bar>sg * 2 ^ 52\<bar> < (2::int) ^ 53" by (simp add: sg_def)
      ultimately show ?thesis using E970 E74
        by (intro rnd_exact[of r "sg * 2 ^ 52" "E + 1"]) simp_all
    qed
  qed
qed

lemma wf_num_rnd: "wf_num (rnd q)"
  by (cases "rnd q") (simp_all add: wf_num_def is_double_def rnd_idem)

lemma wf_num_infinite: "wf_num PInf" "wf_num NInf"
  by (simp_all add: wf_num_def)

lemma wf_num_jnegate: "wf_num a \<Longrightarrow> wf_num (jnegate a)"
  by (cases a) (simp_all add: wf_num_def is_double_def rnd_minus)

lemma wf_num_jadd: "wf_num (jadd a b)"
  by (cases a; cases b) (simp_all add: wf_num_rnd wf_num_infinite, simp_all add: wf_num_def is_double_def)

lemma wf_num_jdiv: "wf_num (jdiv a b)"
  by (cases a; cases b) (simp_all add: wf_num_rnd wf_num_infinite, simp_all add: wf_num_def is_double_def)

lemma rnd_not_NaN: "rnd q \<noteq> NaN"
  by (simp add: rnd_def Let_def)

lemma isFinite_simps [simp]:
  "isFinite (Fin q)" "\<not> isFinite NaN" "\<not> isFinite PInf" "\<not> isFinite NInf"
  by (simp_all add: isFinite_def)

lemma safeNumber_num_finite: "isFinite (safeNumber v)"
  by (simp add: safeNumber_def Let_def split: jsval.splits)

section \<open>\<open>calculateRoi\<close>\<close>

lemma jdiv_zero_pos: "0 < t \<Longrightarrow> jdiv (Fin 0) (Fin t) = Fin 0"
  by simp

lemma calculateRoi_unfold:
  "calculateRoi r t =
     (if isFinite t \<and> jlt (Fin 0) t
      then jdiv (if isFinite r then r else Fin 0) t else Fin 0)"
  by (cases t; cases r)
     (auto simp add: calculateRoi_def safeNumber_def jle_def jeq_def not_less Let_def)

text \<open>The computed ROI is a binary64 value, and it is never \<open>NaN\<close>.\<close>

lemma wf_num_calculateRoi: "wf_num (calculateRoi r t)"
  by (simp add: calculateRoi_unfold wf_num_jdiv) (simp add: wf_num_def is_double_def)

lemma calculateRoi_not_NaN: "calculateRoi r t \<noteq> NaN"
  by (cases t; cases r) (simp_all add: calculateRoi_unfold rnd_not_NaN)

text \<open>Two binary64 values whose quotient overflows.\<close>

lemma overflow_inputs_wf: "wf_num (Fin (2 ^ 1023))" "wf_num (Fin (1 / 2))"
proof -
  have "(2::rat) ^ 1023 = of_int (2 ^ 52) * 2 powi 971" by simp
  then show "wf_num (Fin (2 ^ 1023))"
    using rnd_exact[of "2 ^ 1023" "2 ^ 52" 971] by (simp add: wf_num_def is_double_def)
  show "wf_num (Fin (1 / 2))"
    using rnd_exact[of "1 / 2" 1 "- 1"] by (simp add: wf_num_def is_double_def)
qed

lemma calculateRoi_big: "calculateRoi (Fin (2 ^ 1023)) (Fin (1 / 2)) = PInf"
proof -
  have "(2::rat) ^ 1023 / (1 / 2) = 2 powi 1024" by simp
  then have "rnd (2 ^ 1023 / (1 / 2)) = PInf"
    using rnd_overflow[of "2 powi 1024"] by (simp del: power_int_numeral)
  then show ?thesis by (simp add: calculateRoi_unfold)
qed

lemma rnd_25: "rnd 25 = Fin 25"
  using rnd_of_int[of 25] by simp

lemma rnd_minus_25: "rnd (- 25) = Fin (- 25)"
  using rnd_of_int[of "- 25"] by simp

text \<open>
  C1.  \<open>calculateRoi(revenue, time)\<close> is \<open>revenue / time\<close> when \<open>time\<close> is a finite number
  greater than 0 and \<open>revenue\<close> is finite, and it is 0 whenever \<open>time <= 0\<close> or one of the
  operands is not finite; \<open>calculateRoi(100, 0) = 0\<close>, \<open>calculateRoi(100, 4) = 25\<close> and
  \<open>calculateRoi(-50, 2) = -25\<close>.
\<close>

theorem calculateRoi_spec:
  "(isFinite r \<and> isFinite t \<and> jgt t (Fin 0) \<longrightarrow>
      calculateRoi r t = jdiv r t) \<and>
   (jle t (Fin 0) \<or> \<not> isFinite r \<or> \<not> isFinite t \<longrightarrow>
      calculateRoi r t = Fin 0) \<and>
   calculateRoi (Fin 100) (Fin 0) = Fin 0 \<and>
   calculateRoi (Fin 100) (Fin 4) = Fin 25 \<and>
   calculateRoi (Fin (- 50)) (Fin 2) = Fin (- 25)"
proof (intro conjI impI)
  assume "isFinite r \<and> isFinite t \<and> jgt t (Fin 0)"
  then show "calculateRoi r t = jdiv r t"
    by (simp add: calculateRoi_unfold jgt_def)
next
  assume h: "jle t (Fin 0) \<or> \<not> isFinite r \<or> \<not> isFinite t"
  show "calculateRoi r t = Fin 0"
  proof (cases "isFinite t \<and> jlt (Fin 0) t")
    case False
    then show ?thesis by (auto simp add: calculateRoi_unfold)
  next
    case True
    then obtain q where t: "t = Fin q" "0 < q" by (cases t) auto
    then have "\<not> jle t (Fin 0)" by (simp add: jle_def jeq_def)
    with h t have "\<not> isFinite r" by simp
    then show ?thesis using t by (simp add: calculateRoi_unfold)
  qed
next
  show "calculateRoi (Fin 100) (Fin 0) = Fin 0"
    by (simp add: calculateRoi_unfold)
next
  show "calculateRoi (Fin 100) (Fin 4) = Fin 25"
    by (simp add: calculateRoi_unfold rnd_25)
next
  show "calculateRoi (Fin (- 50)) (Fin 2) = Fin (- 25)"
    by (simp add: calculateRoi_unfold rnd_minus_25)
qed

theorem calculateRoi_spec_witness:
  "isFinite (Fin 100) \<and> isFinite (Fin 4) \<and> jgt (Fin 4) (Fin 0) \<and>
   calculateRoi (Fin 100) (Fin 4) = jdiv (Fin 100) (Fin 4) \<and>
   jle (Fin 0) (Fin 0) \<and> calculateRoi (Fin 100) (Fin 0) = Fin 0 \<and>
   \<not> isFinite PInf \<and> calculateRoi PInf (Fin 4) = Fin 0"
  using calculateRoi_spec[of "Fin 100" "Fin 4"] calculateRoi_spec[of "Fin 100" "Fin 0"]
    calculateRoi_spec[of PInf "Fin 4"]
  by (simp add: jgt_def jle_def jeq_def)

text \<open>
  C4.  \<open>calculateRoi\<close> is claimed never to return \<open>NaN\<close> or an infinity.  The guard keeps
  the divisor finite and positive and the dividend finite, but the quotient of two finite
  numbers can overflow: \<open>2^1023\<close> and \<open>0.5\<close> are binary64 values and
  \<open>calculateRoi(2^1023, 0.5)\<close> is \<open>Infinity\<close>.
\<close>

theorem calculateRoi_overflow:
  "wf_num (Fin (2 ^ 1023)) \<and> wf_num (Fin (1 / 2)) \<and>
   calculateRoi (Fin (2 ^ 1023)) (Fin (1 / 2)) = PInf \<and>
   \<not> isFinite (calculateRoi (Fin (2 ^ 1023)) (Fin (1 / 2)))"
proof -
  have "\<not> isFinite (calculateRoi (Fin (2 ^ 1023)) (Fin (1 / 2)))"
    by (simp only: calculateRoi_big isFinite_simps not_False_eq_True)
  then show ?thesis using overflow_inputs_wf calculateRoi_big by (intro conjI)
qed

theorem calculateRoi_overflow_witness:
  "jdiv (Fin (2 ^ 1023)) (Fin (1 / 2)) = PInf \<and>
   calculateRoi (Fin (2 ^ 1023)) (Fin (1 / 2)) = jdiv (Fin (2 ^ 1023)) (Fin (1 / 2))"
proof -
  have "calculateRoi (Fin (2 ^ 1023)) (Fin (1 / 2)) = jdiv (Fin (2 ^ 1023)) (Fin (1 / 2))"
    by (simp add: calculateRoi_unfold)
  moreover have "calculateRoi (Fin (2 ^ 1023)) (Fin (1 / 2)) = PInf"
    using calculateRoi_overflow by (elim conjE)
  ultimately show ?thesis by (simp only: simp_thms)
qed

section \<open>\<open>safeNumber\<close>\<close>

lemma js_simps: "js [] = []" "js (c # cs) = of_char c # js cs"
  by (simp_all add: js_def)

lemmas parse_defs =
  StringToNumber_def trim_def isWhiteSpace_def nonDecimal_def strUnsigned_def
  unsignedDecimal_def isDigit_def exponentPart_def digitsVal_def digitOf_def

lemma StringToNumber_abc: "StringToNumber (js ''abc'') = NaN"
  by (simp add: parse_defs js_simps)

lemma StringToNumber_42: "StringToNumber (js ''42'') = Fin 42"
proof -
  have "StringToNumber (js ''42'') = rnd 42" by (simp add: parse_defs js_simps)
  then show ?thesis using rnd_of_int[of 42] by simp
qed

lemma StringToNumber_3_5: "StringToNumber (js '' 3.5 '') = Fin (7 / 2)"
proof -
  have "StringToNumber (js '' 3.5 '') = rnd (7 / 2)" by (simp add: parse_defs js_simps)
  then show ?thesis using rnd_exact[of "7 / 2" 7 "- 1"] by simp
qed

lemma trim_blank: "trim (js ''   '') = []"
  by (simp add: trim_def isWhiteSpace_def js_simps)

lemma trim_abc: "trim (js ''abc'') = js ''abc''"
  by (simp add: trim_def isWhiteSpace_def js_simps)

lemma trim_42: "trim (js ''42'') = js ''42''"
  by (simp add: trim_def isWhiteSpace_def js_simps)

lemma StringToNumber_empty: "trim s = [] \<Longrightarrow> StringToNumber s = Fin 0"
  by (simp add: StringToNumber_def)

lemma trim_Nil [simp]: "trim [] = []"
  by (simp add: trim_def)

text \<open>
  C3.  \<open>safeNumber(v)\<close> is \<open>v\<close> itself when \<open>v\<close> is a finite number, the parsed value when
  \<open>v\<close> is a string whose trimmed form parses to a finite number, and 0 in every other
  case, among them \<open>"abc"\<close>, \<open>null\<close>, \<open>NaN\<close>, \<open>Infinity\<close> and empty or blank strings; finite
  numbers and numeric strings pass through.
\<close>

theorem safeNumber_spec:
  "(isFinite n \<longrightarrow> safeNumber (JNum n) = n) \<and>
   (isFinite (StringToNumber (trim s)) \<longrightarrow> safeNumber (JStr s) = StringToNumber (trim s)) \<and>
   (\<not> isFinite n \<longrightarrow> safeNumber (JNum n) = Fin 0) \<and>
   (\<not> isFinite (StringToNumber (trim s)) \<longrightarrow> safeNumber (JStr s) = Fin 0) \<and>
   ((\<forall>m. v \<noteq> JNum m) \<and> (\<forall>t. v \<noteq> JStr t) \<longrightarrow> safeNumber v = Fin 0) \<and>
   (trim s = [] \<longrightarrow> safeNumber (JStr s) = Fin 0) \<and>
   safeNumber (JStr (js ''abc'')) = Fin 0 \<and>
   safeNumber JNull = Fin 0 \<and>
   safeNumber (JNum NaN) = Fin 0 \<and>
   safeNumber (JNum PInf) = Fin 0 \<and>
   safeNumber (JStr []) = Fin 0 \<and>
   safeNumber (JStr (js ''   '')) = Fin 0 \<and>
   safeNumber (JNum (Fin 42)) = Fin 42 \<and>
   safeNumber (JStr (js ''42'')) = Fin 42"
proof (intro conjI impI)
  assume "isFinite (StringToNumber (trim s))"
  then show "safeNumber (JStr s) = StringToNumber (trim s)"
    by (simp add: safeNumber_def Let_def StringToNumber_empty)
next
  assume "(\<forall>m. v \<noteq> JNum m) \<and> (\<forall>t. v \<noteq> JStr t)"
  then show "safeNumber v = Fin 0"
    by (cases v) (simp_all add: safeNumber_def)
next
  show "safeNumber (JStr (js ''abc'')) = Fin 0"
    by (simp add: safeNumber_def Let_def trim_abc StringToNumber_abc)
next
  have "js ''42'' \<noteq> []" by (simp add: js_simps)
  then show "safeNumber (JStr (js ''42'')) = Fin 42"
    by (simp add: safeNumber_def Let_def trim_42 StringToNumber_42)
next
  show "safeNumber (JStr (js ''   '')) = Fin 0"
    by (simp add: safeNumber_def Let_def trim_blank)
qed (simp_all add: safeNumber_def Let_def)

theorem safeNumber_spec_witness:
  "isFinite (Fin (7 / 2)) \<and> safeNumber (JNum (Fin (7 / 2))) = Fin (7 / 2) \<and>
   isFinite (StringToNumber (trim (js '' 3.5 ''))) \<and>
   safeNumber (JStr (js '' 3.5 '')) = Fin (7 / 2) \<and>
   \<not> isFinite NInf \<and> safeNumber (JNum NInf) = Fin 0 \<and>
   \<not> isFinite (StringToNumber (trim (js ''abc''))) \<and>
   safeNumber (JBool True) = Fin 0 \<and>
   trim (js ''   '') = [] \<and> safeNumber (JStr (js ''   '')) = Fin 0"
proof -
  have t: "trim (js '' 3.5 '') = js ''3.5''"
    by (simp add: trim_def isWhiteSpace_def js_simps)
  have "StringToNumber (js ''3.5'') = rnd (7 / 2)" by (simp add: parse_defs js_simps)
  then have p: "StringToNumber (js ''3.5'') = Fin (7 / 2)"
    using rnd_exact[of "7 / 2" 7 "- 1"] by simp
  show ?thesis
    using safeNumber_spec[of "Fin (7 / 2)" "js '' 3.5 ''" "JBool True"]
      safeNumber_spec[of NInf "js ''abc''" "JBool True"]
      safeNumber_spec[of NInf "js ''   ''" "JBool True"]
    by (simp add: t p trim_abc StringToNumber_abc trim_blank)
qed

section \<open>The initial task list\<close>

text \<open>
  C5.  On startup the task list is empty when the stored data is absent, does not parse as
  JSON or parses to something that is not an array; otherwise it is the parsed array.  The
  initialiser returns a list in every case: no failure of the storage or of the parser
  propagates.  (\<open>JSON.parse\<close> rejects the empty string.)
\<close>

theorem initialTasks_spec:
  assumes "isl (JSON_parse [])"
  shows "initialTasks JSON_parse getItem =
     (case getItem of
        Inr (Some raw) \<Rightarrow> (case JSON_parse raw of Inr (JArray xs) \<Rightarrow> xs | _ \<Rightarrow> [])
      | _ \<Rightarrow> [])"
  using assms
  by (auto simp add: initialTasks_def initialTasks_try_def isl_def
      split: sum.splits option.splits json.splits)

theorem initialTasks_spec_witness:
  "isl (demo_parse []) \<and>
   initialTasks demo_parse (Inr None) = [] \<and>
   initialTasks demo_parse (Inl SecurityError) = [] \<and>
   initialTasks demo_parse (Inr (Some (js ''not json''))) = [] \<and>
   initialTasks demo_parse (Inr (Some (js ''{}''))) = [] \<and>
   initialTasks demo_parse (Inr (Some (js ''[1]''))) = [JNumber (Fin 1)]"
proof -
  have e: "isl (demo_parse [])" by (simp add: demo_parse_def js_simps)
  show ?thesis
    using e initialTasks_spec[of demo_parse "Inr None", OF e]
      initialTasks_spec[of demo_parse "Inl SecurityError", OF e]
      initialTasks_spec[of demo_parse "Inr (Some (js ''not json''))", OF e]
      initialTasks_spec[of demo_parse "Inr (Some (js ''{}''))", OF e]
      initialTasks_spec[of demo_parse "Inr (Some (js ''[1]''))", OF e]
    by (simp add: demo_parse_def js_simps)
qed

section \<open>Formatting\<close>

text \<open>
  C6.  \<open>formatCurrency(n, currency)\<close> formats the value, with a non-finite \<open>n\<close> replaced by
  0, through the currency formatter of the platform; when that throws it returns \<open>'$'\<close>
  followed by the two-decimal \<open>formatNumber\<close> of the value, and it never throws.
  \<open>formatNumber\<close> replaces a non-finite input by 0 and asks for exactly the requested
  number of fraction digits, 2 by default.  (The platform formats every finite number with
  two fraction digits.)
\<close>

theorem formatCurrency_spec:
  assumes "formatsTwoDigits toLocaleString"
  shows "(intlCurrency (case cur of None \<Rightarrow> js ''USD'' | Some c \<Rightarrow> c)
            (if isFinite n then n else Fin 0) = Inr s \<longrightarrow>
          formatCurrency intlCurrency toLocaleString n cur = Inr s) \<and>
         (isl (intlCurrency (case cur of None \<Rightarrow> js ''USD'' | Some c \<Rightarrow> c)
            (if isFinite n then n else Fin 0)) \<longrightarrow>
          (\<exists>r. formatNumber toLocaleString (if isFinite n then n else Fin 0) (Some (Fin 2)) = Inr r \<and>
               formatCurrency intlCurrency toLocaleString n cur = Inr (js ''$'' @ r))) \<and>
         \<not> isl (formatCurrency intlCurrency toLocaleString n cur) \<and>
         formatNumber toLocaleString n None = formatNumber toLocaleString n (Some (Fin 2)) \<and>
         formatNumber toLocaleString n (Some d) =
           toLocaleString (if isFinite n then n else Fin 0) d d"
proof -
  define v where "v = (if isFinite n then n else Fin 0)"
  have fv: "isFinite v" by (simp add: v_def)
  then obtain r where r: "toLocaleString v (Fin 2) (Fin 2) = Inr r"
    using assms by (cases "toLocaleString v (Fin 2) (Fin 2)") (auto simp add: formatsTwoDigits_def)
  have fn: "formatNumber toLocaleString v None = Inr r"
    using r fv by (simp add: formatNumber_def Let_def)
  have fn2: "formatNumber toLocaleString v (Some (Fin 2)) = Inr r"
    using r fv by (simp add: formatNumber_def Let_def)
  show ?thesis
    using fn fn2 fv
    by (auto simp add: formatCurrency_def formatNumber_def Let_def v_def[symmetric] isl_def
        split: sum.splits option.splits)
qed

theorem formatCurrency_spec_witness:
  "formatsTwoDigits demo_toLocaleString \<and>
   formatCurrency demo_intlCurrency demo_toLocaleString (Fin 5) None = Inr (js ''$5.00'') \<and>
   formatCurrency demo_intlCurrency demo_toLocaleString NaN (Some (js ''???'')) = Inr (js ''$0.00'') \<and>
   formatNumber demo_toLocaleString PInf None = Inr (js ''0.00'')"
proof -
  have h: "formatsTwoDigits demo_toLocaleString"
    by (simp add: formatsTwoDigits_def demo_toLocaleString_def)
  show ?thesis
    using h
      formatCurrency_spec[where toLocaleString = demo_toLocaleString and
        intlCurrency = demo_intlCurrency and cur = None and n = "Fin 5" and
        s = "js ''$5.00''" and d = "Fin 2", OF h]
      formatCurrency_spec[where toLocaleString = demo_toLocaleString and
        intlCurrency = demo_intlCurrency and cur = "Some (js ''???'')" and n = NaN and
        s = "[]" and d = "Fin 2", OF h]
      formatCurrency_spec[where toLocaleString = demo_toLocaleString and
        intlCurrency = demo_intlCurrency and cur = None and n = PInf and
        s = "[]" and d = "Fin 2", OF h]
    by (simp add: demo_intlCurrency_def demo_toLocaleString_def formatNumber_def js_simps)
qed

section \<open>Deleting a task and undoing it\<close>

lemma find_filter_single:
  "distinct (map f xs) \<Longrightarrow> find (\<lambda>x. f x = i) xs = Some t \<Longrightarrow> filter (\<lambda>x. f x = i) xs = [t]"
proof (induction xs)
  case Nil
  then show ?case by simp
next
  case (Cons x xs)
  show ?case
  proof (cases "f x = i")
    case True
    have "f x \<notin> f ` set xs" using Cons.prems(1) by simp
    then have "\<forall>y\<in>set xs. f y \<noteq> i" using True by blast
    then have "filter (\<lambda>y. f y = i) xs = []"
      by (simp add: filter_empty_conv)
    then show ?thesis using True Cons.prems(2) by simp
  next
    case False
    then show ?thesis using Cons by simp
  qed
qed

lemma find_present:
  "i \<in> f ` set xs \<Longrightarrow> \<exists>t. find (\<lambda>x. f x = i) xs = Some t \<and> t \<in> set xs \<and> f t = i"
  by (induction xs) auto

lemma mset_split_filter:
  "mset (filter (\<lambda>x. f x = i) xs) + mset (filter (\<lambda>x. f x \<noteq> i) xs) = mset xs"
  by (induction xs) auto

text \<open>
  C8.  In a state whose task ids are pairwise distinct and that holds a task with id \<open>i\<close>,
  \<open>deleteTask(i)\<close> followed by \<open>undoDelete\<close> gives a task list with exactly the tasks it
  had before, the deleted task now at the front; afterwards \<open>lastDeleted\<close> is cleared and
  the snackbar is closed.
\<close>

theorem delete_undo_restores:
  assumes "distinct (map task_id (tasks s))" and "i \<in> task_id ` set (tasks s)"
  shows "\<exists>t. find (\<lambda>x. task_id x = i) (tasks s) = Some t \<and>
           tasks (undoDelete (deleteTask i s)) = t # filter (\<lambda>x. task_id x \<noteq> i) (tasks s) \<and>
           mset (tasks (undoDelete (deleteTask i s))) = mset (tasks s) \<and>
           lastDeleted (undoDelete (deleteTask i s)) = None \<and>
           \<not> snackbarOpen (undoDelete (deleteTask i s))"
proof -
  obtain t where t: "find (\<lambda>x. task_id x = i) (tasks s) = Some t"
    using find_present[OF assms(2)] by blast
  have one: "filter (\<lambda>x. task_id x = i) (tasks s) = [t]"
    by (rule find_filter_single[OF assms(1) t])
  have "mset (t # filter (\<lambda>x. task_id x \<noteq> i) (tasks s)) = mset (tasks s)"
    using mset_split_filter[of task_id i "tasks s"] by (simp add: one)
  then show ?thesis using t
    by (simp add: deleteTask_def undoDelete_def Let_def)
qed

theorem delete_undo_restores_witness:
  "distinct (map task_id (tasks demo_state)) \<and> js ''b'' \<in> task_id ` set (tasks demo_state) \<and>
   tasks (undoDelete (deleteTask (js ''b'') demo_state)) =
     [demo_task (js ''b'') (Fin 2), demo_task (js ''a'') (Fin 1)] \<and>
   mset (tasks (undoDelete (deleteTask (js ''b'') demo_state))) = mset (tasks demo_state) \<and>
   lastDeleted (undoDelete (deleteTask (js ''b'') demo_state)) = None \<and>
   \<not> snackbarOpen (undoDelete (deleteTask (js ''b'') demo_state))"
proof -
  have d: "distinct (map task_id (tasks demo_state))"
    by (simp add: demo_state_def demo_task_def js_simps)
  have m: "js ''b'' \<in> task_id ` set (tasks demo_state)"
    by (simp add: demo_state_def demo_task_def)
  show ?thesis using delete_undo_restores[OF d m] d m
    by (auto simp add: demo_state_def demo_task_def js_simps)
qed

section \<open>CSV fields: escaping and splitting\<close>

lemma splitCsvLoop_plain:
  "\<forall>c\<in>set f. c \<noteq> 0x2C \<and> c \<noteq> 0x22 \<Longrightarrow>
   splitCsvLoop res cur False (f @ r) = splitCsvLoop res (cur @ f) False r"
  by (induction f arbitrary: cur) simp_all

lemma splitCsvLoop_quoted:
  "r = [] \<or> hd r \<noteq> 0x22 \<Longrightarrow>
   splitCsvLoop res cur True
     (concat (map (\<lambda>c. if c = 0x22 then [0x22, 0x22] else [c]) f) @ 0x22 # r) =
   splitCsvLoop res (cur @ f) False r"
proof (induction f arbitrary: cur)
  case Nil
  then show ?case by (cases r) auto
next
  case (Cons c f)
  then show ?case by simp
qed

lemma splitCsvLoop_field:
  assumes "r = [] \<or> hd r = 0x2C"
  shows "splitCsvLoop res [] False (escapeCsv f @ r) = splitCsvLoop res f False r"
proof (cases "0x2C \<in> set f \<or> 0x22 \<in> set f \<or> 0xA \<in> set f")
  case True
  have r: "r = [] \<or> hd r \<noteq> 0x22" using assms by auto
  show ?thesis using True splitCsvLoop_quoted[OF r, of res "[]" f]
    by (simp add: escapeCsv_def)
next
  case False
  then have "\<forall>c\<in>set f. c \<noteq> 0x2C \<and> c \<noteq> 0x22" by auto
  from splitCsvLoop_plain[OF this, of res "[]" r] False show ?thesis
    by (simp add: escapeCsv_def)
qed

lemma splitCsvLoop_join:
  "fs \<noteq> [] \<Longrightarrow> splitCsvLoop res [] False (join [0x2C] (map escapeCsv fs)) = res @ fs"
proof (induction fs arbitrary: res)
  case Nil
  then show ?case by simp
next
  case (Cons x fs)
  show ?case
  proof (cases fs)
    case Nil
    then show ?thesis using splitCsvLoop_field[of "[]" res x] by simp
  next
    case (Cons y ys)
    have "splitCsvLoop res [] False (join [0x2C] (map escapeCsv (x # fs))) =
          splitCsvLoop res [] False (escapeCsv x @ 0x2C # join [0x2C] (map escapeCsv fs))"
      by (simp add: Cons)
    also have "\<dots> = splitCsvLoop res x False (0x2C # join [0x2C] (map escapeCsv fs))"
      by (rule splitCsvLoop_field) simp
    also have "\<dots> = splitCsvLoop (res @ [x]) [] False (join [0x2C] (map escapeCsv fs))"
      by simp
    also have "\<dots> = (res @ [x]) @ fs"
      by (rule Cons.IH) (simp add: Cons)
    finally show ?thesis by simp
  qed
qed

lemma dropWhile_id_iff: "dropWhile P xs = xs \<longleftrightarrow> xs = [] \<or> \<not> P (hd xs)"
proof (cases xs)
  case Nil
  then show ?thesis by simp
next
  case (Cons a list)
  have "dropWhile P list \<noteq> a # list"
  proof
    assume "dropWhile P list = a # list"
    then have "length (dropWhile P list) = Suc (length list)" by simp
    then show False using length_dropWhile_le[of P list] by simp
  qed
  then show ?thesis using Cons by simp
qed

text \<open>\<open>trim\<close> leaves a string alone exactly when it neither starts nor ends with whitespace.\<close>

lemma trim_id_iff:
  "trim f = f \<longleftrightarrow> f = [] \<or> (\<not> isWhiteSpace (hd f) \<and> \<not> isWhiteSpace (last f))"
proof (cases "f = []")
  case True
  then show ?thesis by simp
next
  case False
  show ?thesis
  proof
    assume r: "f = [] \<or> (\<not> isWhiteSpace (hd f) \<and> \<not> isWhiteSpace (last f))"
    then have 1: "dropWhile isWhiteSpace f = f" using False by (simp add: dropWhile_id_iff)
    have "hd (rev f) = last f" using False by (simp add: hd_rev)
    then have 2: "dropWhile isWhiteSpace (rev f) = rev f" using r False by (simp add: dropWhile_id_iff)
    show "trim f = f" by (simp add: trim_def 1 2)
  next
    assume t: "trim f = f"
    have l1: "length (dropWhile isWhiteSpace (rev (dropWhile isWhiteSpace f))) \<le>
              length (dropWhile isWhiteSpace f)"
      using length_dropWhile_le[of isWhiteSpace "rev (dropWhile isWhiteSpace f)"] by simp
    have l2: "length (dropWhile isWhiteSpace f) \<le> length f" by (rule length_dropWhile_le)
    have "length (trim f) = length f" using t by simp
    then have e: "length (dropWhile isWhiteSpace (rev (dropWhile isWhiteSpace f))) = length f"
      by (simp add: trim_def)
    then have "length (dropWhile isWhiteSpace f) = length f" using l1 l2 by linarith
    then have 1: "dropWhile isWhiteSpace f = f"
      by (metis append_eq_append_conv append_self_conv2 takeWhile_dropWhile_id)
    then have "rev (dropWhile isWhiteSpace (rev f)) = f" using t by (simp add: trim_def)
    then have 2: "dropWhile isWhiteSpace (rev f) = rev f" by (metis rev_rev_ident)
    have "hd (rev f) = last f" using False by (simp add: hd_rev)
    then show "f = [] \<or> (\<not> isWhiteSpace (hd f) \<and> \<not> isWhiteSpace (last f))"
      using 1 2 False by (simp add: dropWhile_id_iff)
  qed
qed

lemma csv_roundtrip_trimmed:
  assumes "fs \<noteq> []" and "\<forall>f\<in>set fs. trim f = f"
  shows "splitCsvLine (join [0x2C] (map escapeCsv fs)) = fs"
proof -
  have "map trim fs = fs" using assms(2) by (simp add: map_idI)
  then show ?thesis using splitCsvLoop_join[OF assms(1), of "[]"]
    by (simp add: splitCsvLine_def)
qed

text \<open>
  C9.  Escaping and splitting round-trip.  As claimed for every list of fields it fails on
  the empty list, whose join is the empty line, which splits into one empty field.  For
  every non-empty list of fields with no newline and no leading or trailing whitespace,
  \<open>splitCsvLine\<close> of the comma-join of the escaped fields is the list itself.
\<close>

theorem csv_roundtrip:
  assumes "fs \<noteq> []"
    and "\<forall>f\<in>set fs. 0xA \<notin> set f \<and>
           (f = [] \<or> (\<not> isWhiteSpace (hd f) \<and> \<not> isWhiteSpace (last f)))"
  shows "splitCsvLine (join [0x2C] (map escapeCsv fs)) = fs"
  using assms by (intro csv_roundtrip_trimmed) (simp_all add: trim_id_iff)

theorem csv_roundtrip_witness:
  "[js ''a,b'', js ''say \"hi\"'', [], js ''plain''] \<noteq> [] \<and>
   join [0x2C] (map escapeCsv [js ''a,b'', js ''say \"hi\"'', [], js ''plain'']) =
     js ''\"a,b\",\"say \"\"hi\"\"\",,plain'' \<and>
   splitCsvLine (js ''\"a,b\",\"say \"\"hi\"\"\",,plain'') =
     [js ''a,b'', js ''say \"hi\"'', [], js ''plain'']"
proof -
  let ?fs = "[js ''a,b'', js ''say \"hi\"'', [], js ''plain'']"
  have ne: "?fs \<noteq> []" by simp
  have tr: "\<forall>f\<in>set ?fs. 0xA \<notin> set f \<and>
           (f = [] \<or> (\<not> isWhiteSpace (hd f) \<and> \<not> isWhiteSpace (last f)))"
    by (simp add: js_simps isWhiteSpace_def)
  have j: "join [0x2C] (map escapeCsv ?fs) = js ''\"a,b\",\"say \"\"hi\"\"\",,plain''"
    by (simp add: js_simps escapeCsv_def)
  show ?thesis
    by (intro conjI) (rule ne, rule j, rule csv_roundtrip[OF ne tr, unfolded j])
qed

theorem csv_roundtrip_empty_counterexample:
  "splitCsvLine (join [0x2C] (map escapeCsv [])) = [[]] \<and>
   splitCsvLine (join [0x2C] (map escapeCsv [])) \<noteq> []"
  by (simp add: splitCsvLine_def)

section \<open>The summary: Average ROI and Performance Grade\<close>


lemma jdiv_pos_1: "jdiv (Fin 25) (Fin 1) = Fin 25"
  by (simp add: rnd_25)





section \<open>The order of the numbers and the sign of a difference\<close>

text \<open>Binary64 values are integer multiples of the least subnormal.\<close>

lemma ulp_exp_ge: "- 1074 \<le> ulp_exp a"
  by (simp add: ulp_exp_def)

lemma is_double_multiple:
  assumes "is_double x"
  shows "\<exists>k::int. x = of_int k * 2 powi (- 1074)"
proof (cases "x = 0")
  case True
  then show ?thesis by (intro exI[of _ 0]) simp
next
  case False
  define e where "e = ulp_exp \<bar>x\<bar>"
  define n where "n = round_even (\<bar>x\<bar> / 2 powi e)"
  define j where "j = nat (e + 1074)"
  have e: "e = int j + (- 1074)" using ulp_exp_ge[of "\<bar>x\<bar>"] by (simp add: j_def e_def)
  define sg :: int where "sg = (if 0 < x then 1 else - 1)"
  have sg: "sgn x = of_int sg" using False by (simp add: sg_def sgn_if)
  have "rnd x = Fin x" using assms by (simp add: is_double_def)
  then have "x = sgn x * (of_int n * 2 powi e)"
    using False
    by (simp add: rnd_def Let_def e_def[symmetric] n_def[symmetric] split: if_splits
        del: power_int_numeral)
  moreover have "(2::rat) powi e = 2 powi (int j) * 2 powi (- 1074)"
    by (subst e) (rule power_int_add, simp)
  ultimately have "x = of_int sg * (of_int n * (of_int (2 ^ j) * 2 powi (- 1074)))"
    by (simp only: sg power_int_of_nat of_int_power of_int_numeral)
  then have "x = of_int (sg * n * 2 ^ j) * 2 powi (- 1074)"
    by (simp only: of_int_mult mult.assoc)
  then show ?thesis by blast
qed

lemma double_gap:
  assumes "is_double x" "is_double y" "x < y"
  shows "2 powi (- 1074) \<le> y - x"
proof -
  obtain k where k: "x = of_int k * 2 powi (- 1074)"
    using is_double_multiple[OF assms(1)] by blast
  obtain l where l: "y = of_int l * 2 powi (- 1074)"
    using is_double_multiple[OF assms(2)] by blast
  have p: "(0::rat) < 2 powi (- 1074)" by simp
  have "(of_int k :: rat) < of_int l"
    using assms(3) p unfolding k l by (simp only: mult_less_cancel_right_pos)
  then have "k + 1 \<le> l" by simp
  then have "(of_int (k + 1) :: rat) \<le> of_int l" by (simp only: of_int_le_iff)
  then have "(of_int (k + 1) :: rat) * 2 powi (- 1074) \<le> of_int l * 2 powi (- 1074)"
    using p by (simp only: mult_le_cancel_right_pos)
  then show ?thesis unfolding k l by (simp add: algebra_simps del: power_int_minus power_int_numeral)
qed

text \<open>Subtraction of binary64 values never loses the sign of the exact difference.\<close>

lemma jsub_fin_sign:
  assumes "is_double x" "is_double y"
  shows "(jlt (jsub (Fin x) (Fin y)) (Fin 0) \<longleftrightarrow> x < y) \<and>
         (jlt (Fin 0) (jsub (Fin x) (Fin y)) \<longleftrightarrow> y < x)"
proof -
  consider "x < y" | "x = y" | "y < x" by linarith
  then show ?thesis
  proof cases
    case 1
    have "x - y \<le> - (2 powi (- 1074))" using double_gap[OF assms 1] by simp
    from rnd_neg[OF this] 1 show ?thesis by (auto simp add: jsub_def)
  next
    case 2
    then show ?thesis by (simp add: jsub_def)
  next
    case 3
    have "2 powi (- 1074) \<le> x - y" using double_gap[OF assms(2,1) 3] by simp
    from rnd_pos[OF this] 3 show ?thesis by (auto simp add: jsub_def)
  qed
qed

lemma jsub_sign:
  assumes "wf_num a" "wf_num b" "a \<noteq> NaN" "b \<noteq> NaN"
  shows "(jlt (jsub a b) (Fin 0) \<longleftrightarrow> jlt a b) \<and> (jlt (Fin 0) (jsub a b) \<longleftrightarrow> jlt b a)"
proof (cases a)
  case (Fin x)
  note a = this
  show ?thesis
  proof (cases b)
    case (Fin y)
    then show ?thesis using assms a jsub_fin_sign[of x y] by (simp add: wf_num_def)
  qed (use assms a in \<open>simp_all add: jsub_def\<close>)
next
  case PInf
  then show ?thesis using assms by (cases b) (simp_all add: jsub_def)
next
  case NInf
  then show ?thesis using assms by (cases b) (simp_all add: jsub_def)
qed (use assms in simp)

text \<open>The order of the numbers that are not \<open>NaN\<close>.\<close>

lemma jlt_irrefl [simp]: "\<not> jlt a a"
  by (cases a) simp_all

lemma jlt_trans: "jlt a b \<Longrightarrow> jlt b c \<Longrightarrow> jlt a c"
  by (cases a; cases b; cases c) simp_all

lemma jlt_asym: "jlt a b \<Longrightarrow> \<not> jlt b a"
  by (cases a; cases b) simp_all

lemma jlt_total: "a \<noteq> NaN \<Longrightarrow> b \<noteq> NaN \<Longrightarrow> a \<noteq> b \<Longrightarrow> jlt a b \<or> jlt b a"
  by (cases a; cases b) auto

lemma jsub_sign':
  assumes "wf_num a" "wf_num b"
  shows "(jlt (jsub a b) (Fin 0) \<longleftrightarrow> jlt a b) \<and> (jlt (Fin 0) (jsub a b) \<longleftrightarrow> jlt b a)"
proof (cases "a = NaN \<or> b = NaN")
  case True
  then show ?thesis by (cases a; cases b) (auto simp add: jsub_def)
next
  case False
  then show ?thesis using jsub_sign[OF assms] by simp
qed

lemma is_double_small_int: "\<bar>m\<bar> < 2 ^ 53 \<Longrightarrow> is_double (of_int m)"
  by (simp add: is_double_def rnd_of_int)

section \<open>The comparator of the sorted view\<close>

lemma roiKey_not_NaN [simp]: "roiKey a \<noteq> NaN"
  by (simp add: roiKey_def truthy_num_def)

lemma roiKey_roi: "roi a \<noteq> NaN \<Longrightarrow> roiKey a = roi a"
  by (auto simp add: roiKey_def truthy_num_def)

lemma wf_num_0: "wf_num (Fin 0)"
  by (simp add: wf_num_def is_double_def)

lemma wf_num_ranks: "wf_num (Fin 1)" "wf_num (Fin 2)" "wf_num (Fin 3)"
  using is_double_small_int[of 1] is_double_small_int[of 2] is_double_small_int[of 3]
  by (simp_all add: wf_num_def)

text \<open>The ranks of the three priorities, and the sign of the difference of two of them.\<close>

lemma priRank_standard:
  "priRank (js ''High'') = PNum (Fin 3)" "priRank (js ''Medium'') = PNum (Fin 2)"
  "priRank (js ''Low'') = PNum (Fin 1)"
  by (simp_all add: priRank_def js_simps)

lemma rankOf_standard:
  "rankOf (js ''High'') = 3" "rankOf (js ''Medium'') = 2" "rankOf (js ''Low'') = 1"
  by (simp_all add: rankOf_def js_simps)

lemma rank_difference:
  assumes "p \<in> {js ''High'', js ''Medium'', js ''Low''}"
    and "q \<in> {js ''High'', js ''Medium'', js ''Low''}"
  shows "strictNe (priRank p) (priRank q) \<longleftrightarrow> rankOf p \<noteq> rankOf q"
    and "jlt (jsub (toNumber (priRank q)) (toNumber (priRank p))) (Fin 0) \<longleftrightarrow> rankOf q < rankOf p"
proof -
  note s = jsub_sign'[OF wf_num_ranks(1) wf_num_ranks(1)] jsub_sign'[OF wf_num_ranks(1) wf_num_ranks(2)]
    jsub_sign'[OF wf_num_ranks(1) wf_num_ranks(3)] jsub_sign'[OF wf_num_ranks(2) wf_num_ranks(1)]
    jsub_sign'[OF wf_num_ranks(2) wf_num_ranks(2)] jsub_sign'[OF wf_num_ranks(2) wf_num_ranks(3)]
    jsub_sign'[OF wf_num_ranks(3) wf_num_ranks(1)] jsub_sign'[OF wf_num_ranks(3) wf_num_ranks(2)]
    jsub_sign'[OF wf_num_ranks(3) wf_num_ranks(3)]
  show "strictNe (priRank p) (priRank q) \<longleftrightarrow> rankOf p \<noteq> rankOf q"
    using assms by (auto simp add: priRank_standard rankOf_standard strictNe_def jeq_def)
  show "jlt (jsub (toNumber (priRank q)) (toNumber (priRank p))) (Fin 0) \<longleftrightarrow> rankOf q < rankOf p"
    using assms s by (auto simp add: priRank_standard rankOf_standard toNumber_def)
qed

text \<open>
  On two tasks with priorities among the three, ROIs that are numbers, and lower-cased
  titles that the collation ties only if they are the same string, the comparator is
  negative exactly when the first task comes before the second in the four-key order.
\<close>

lemma compareTasks_four_key:
  assumes wf: "wf_task a" "wf_task b"
    and roi: "roi a \<noteq> NaN" "roi b \<noteq> NaN"
    and pa: "priority a \<in> {js ''High'', js ''Medium'', js ''Low''}"
    and pb: "priority b \<in> {js ''High'', js ''Medium'', js ''Low''}"
    and tie: "tiesOnlyIdentical lcmp (lc (title a)) (lc (title b))"
  shows "jlt (compareTasks lc lcmp a b) (Fin 0) \<longleftrightarrow> fourKeyBefore lc lcmp a b"
proof -
  have w: "wf_num (roi a)" "wf_num (roi b)" "wf_num (createdAt a)" "wf_num (createdAt b)"
    using wf by (simp_all add: wf_task_def)
  note r = jsub_sign'[OF w(2) w(1)]
  note c = jsub_sign'[OF w(4) w(3)]
  note p = rank_difference[OF pa pb]
  have k: "roiKey a = roi a" "roiKey b = roi b" using roi by (simp_all add: roiKey_roi)
  have e: "jeq (roi a) (roi b) \<longleftrightarrow> roi a = roi b" using roi by (simp add: jeq_def)
  show ?thesis
  proof (cases "roi a = roi b")
    case False
    then show ?thesis using r e by (simp add: compareTasks_def fourKeyBefore_def Let_def k)
  next
    case req: True
    show ?thesis
    proof (cases "rankOf (priority a) = rankOf (priority b)")
      case False
      then show ?thesis using req e p
        by (simp add: compareTasks_def fourKeyBefore_def Let_def k)
    next
      case peq: True
      show ?thesis
      proof (cases "lc (title a) = lc (title b)")
        case True
        then have "\<not> jlt (lcmp (lc (title a)) (lc (title b))) (Fin 0)"
          "\<not> jlt (Fin 0) (lcmp (lc (title a)) (lc (title b)))"
          using tie by (simp_all add: tiesOnlyIdentical_def)
        then show ?thesis using True req e p peq c
          by (simp add: compareTasks_def fourKeyBefore_def Let_def k)
      next
        case False
        then have "jlt (lcmp (lc (title a)) (lc (title b))) (Fin 0) \<or>
          jlt (Fin 0) (lcmp (lc (title a)) (lc (title b)))"
          using tie by (auto simp add: tiesOnlyIdentical_def)
        then show ?thesis using False req e p peq
          by (auto simp add: compareTasks_def fourKeyBefore_def Let_def k)
      qed
    qed
  qed
qed

text \<open>
  The example of the description: of two tasks with ROI 5, one \<open>Low\<close> with title \<open>B\<close> and
  one \<open>High\<close> with title \<open>A\<close>, the \<open>High\<close> one is sorted first.
\<close>

lemma sort_example:
  "jsSort (compareTasks lc lcmp) [task_low_B, task_high_A] = [task_high_A, task_low_B]"
proof -
  have "jlt (Fin 0) (jsub (Fin 3) (Fin 1))"
    using jsub_sign'[OF wf_num_ranks(3) wf_num_ranks(1)] by simp
  then have "jlt (Fin 0) (compareTasks lc lcmp task_low_B task_high_A)"
    by (simp add: compareTasks_def Let_def task_low_B_def task_high_A_def roiKey_def
        truthy_num_def jeq_def priRank_standard strictNe_def toNumber_def)
  then show ?thesis by (simp add: jsSort_def)
qed

section \<open>Two pairs of tasks that the comparator does not order\<close>

text \<open>The tasks made of the two sample rows.\<close>

lemma safeNumber_10_2:
  "safeNumber (JStr (js ''10'')) = Fin 10" "safeNumber (JStr (js ''2'')) = Fin 2"
proof -
  have "StringToNumber (js ''10'') = rnd 10" "StringToNumber (js ''2'') = rnd 2"
    by (simp_all add: parse_defs js_simps)
  then have n: "StringToNumber (js ''10'') = Fin 10" "StringToNumber (js ''2'') = Fin 2"
    using rnd_of_int[of 10] rnd_of_int[of 2] by simp_all
  have t: "trim (js ''10'') = js ''10''" "trim (js ''2'') = js ''2''"
    by (simp_all add: trim_def isWhiteSpace_def js_simps)
  have ne: "js ''10'' \<noteq> []" "js ''2'' \<noteq> []" by (simp_all add: js_simps)
  show "safeNumber (JStr (js ''10'')) = Fin 10" "safeNumber (JStr (js ''2'')) = Fin 2"
    using ne by (simp_all add: safeNumber_def Let_def t n)
qed

lemma calculateRoi_10_2: "calculateRoi (Fin 10) (Fin 2) = Fin 5"
  using rnd_of_int[of 5] by (simp add: calculateRoi_unfold)

lemma imported_fields:
  "roi urgent_task = Fin 5" "roi high_task = Fin 5"
  "priority urgent_task = js ''Urgent''" "priority high_task = js ''High''"
  "title urgent_task = js ''Deal''" "title high_task = js ''Deal''"
  "createdAt urgent_task = Fin 1000" "createdAt high_task = Fin 1001"
  "task_id urgent_task = js ''1000-ab12''" "task_id high_task = js ''1001-cd34''"
proof -
  have t: "trim (js ''Deal'') = js ''Deal''" by (simp add: trim_def isWhiteSpace_def js_simps)
  have ne: "js ''Deal'' \<noteq> []" "js ''Urgent'' \<noteq> []" "js ''High'' \<noteq> []"
    by (simp_all add: js_simps)
  have r0: "rnd 1000 = Fin 1000" using rnd_of_int[of 1000] by simp
  have r1: "rnd 1001 = Fin 1001" using rnd_of_int[of 1001] by simp
  show "roi urgent_task = Fin 5" "roi high_task = Fin 5"
    by (simp_all add: urgent_task_def high_task_def importCsvRow_def Let_def row_urgent_def
        row_high_def safeNumber_10_2 calculateRoi_10_2)
  show "priority urgent_task = js ''Urgent''" "priority high_task = js ''High''"
    using ne by (simp_all add: urgent_task_def high_task_def importCsvRow_def Let_def
        row_urgent_def row_high_def)
  show "title urgent_task = js ''Deal''" "title high_task = js ''Deal''"
    using ne by (simp_all add: urgent_task_def high_task_def importCsvRow_def Let_def
        row_urgent_def row_high_def t)
  show "createdAt urgent_task = Fin 1000" "createdAt high_task = Fin 1001"
    by (simp_all add: urgent_task_def high_task_def importCsvRow_def Let_def r0 r1)
  show "task_id urgent_task = js ''1000-ab12''" "task_id high_task = js ''1001-cd34''"
    by (simp_all add: urgent_task_def high_task_def importCsvRow_def Let_def demo_mkId_def)
qed

lemma priRank_Urgent: "priRank (js ''Urgent'') = PUndefined"
  by (simp add: priRank_def objectPrototypeKeys_def js_simps)

lemma tie_fields:
  "roi tie_new = Fin 25" "roi tie_old = Fin 25"
  "priority tie_new = js ''Medium''" "priority tie_old = js ''Medium''"
  "title tie_new = [0x61, 0x301]" "title tie_old = [0xE1]"
  "createdAt tie_new = Fin 2" "createdAt tie_old = Fin 1"
  by (simp_all add: tie_new_def tie_old_def demo_task_def)

lemma canonicalTie_sample: "canonicalTie asciiLower canonCompare"
  by (simp add: canonicalTie_def asciiLower_def canonCompare_def codeUnitCompare_def)

lemma compareTasks_tie_pair:
  assumes "canonicalTie lc lcmp"
  shows "compareTasks lc lcmp tie_new tie_old = Fin 0"
    and "compareTasks lc lcmp tie_old tie_new = Fin 0"
  using assms
  by (simp_all add: compareTasks_def Let_def roiKey_def truthy_num_def tie_fields jeq_def
      priRank_standard strictNe_def canonicalTie_def)

lemma compareTasks_urgent_pair:
  "compareTasks lc lcmp urgent_task high_task = NaN"
  "compareTasks lc lcmp high_task urgent_task = NaN"
  by (simp_all add: compareTasks_def Let_def roiKey_def truthy_num_def imported_fields jeq_def
      priRank_standard priRank_Urgent strictNe_def toNumber_def jsub_def)

section \<open>The four-key order and the determinism of the sort\<close>

lemma wf_task_samples: "wf_task task_high_A" "wf_task task_low_B"
  using is_double_small_int[of 1] is_double_small_int[of 2] is_double_small_int[of 5]
  by (simp_all add: wf_task_def wf_num_def task_high_A_def task_low_B_def)

lemma tiesOnlyIdentical_samples:
  "tiesOnlyIdentical canonCompare (asciiLower (title task_high_A)) (asciiLower (title task_low_B))"
  by (simp add: tiesOnlyIdentical_def canonCompare_def codeUnitCompare_def asciiLower_def
      task_high_A_def task_low_B_def js_simps)

text \<open>
  C2.  The comparator is claimed to order any two tasks by ROI descending, then priority
  rank (High 3, Medium 2, Low 1) descending, then title case-insensitively ascending, then
  \<open>createdAt\<close> descending.  It does so on every pair whose lower-cased titles the collation
  ties only when they are the same string, and it sorts the example of the description with
  the \<open>High\<close> task first.  But the third branch tests the lower-cased titles with \<open>!==\<close>
  and, when they differ, returns the result of \<open>localeCompare\<close> whatever it is: on two
  tasks with equal ROI and the same priority whose titles differ, \<open>createdAt\<close> is never
  read.  \<open>localeCompare\<close> returns 0 on canonically equivalent strings, so the task created
  later with the title \<open>a\<close> + \<open>U+0301\<close> comes before the one with the title \<open>U+00E1\<close> in the
  four-key order, yet the comparator returns 0 in both directions and the sort leaves the
  older task first.
\<close>

theorem compareTasks_title_tie:
  "(wf_task a \<and> wf_task b \<and> roi a \<noteq> NaN \<and> roi b \<noteq> NaN \<and>
    priority a \<in> {js ''High'', js ''Medium'', js ''Low''} \<and>
    priority b \<in> {js ''High'', js ''Medium'', js ''Low''} \<and>
    tiesOnlyIdentical lcmp (lc (title a)) (lc (title b)) \<longrightarrow>
      (jlt (compareTasks lc lcmp a b) (Fin 0) \<longleftrightarrow> fourKeyBefore lc lcmp a b)) \<and>
   jsSort (compareTasks lc lcmp) [task_low_B, task_high_A] = [task_high_A, task_low_B] \<and>
   (jeq (roi c) (roi d) \<and> priority c = priority d \<and> lc (title c) \<noteq> lc (title d) \<longrightarrow>
      compareTasks lc lcmp c d = lcmp (lc (title c)) (lc (title d))) \<and>
   (canonicalTie lc lcmp \<longrightarrow>
      jeq (roi tie_new) (roi tie_old) \<and> priority tie_new = priority tie_old \<and>
      jlt (createdAt tie_old) (createdAt tie_new) \<and>
      fourKeyBefore lc lcmp tie_new tie_old \<and>
      compareTasks lc lcmp tie_new tie_old = Fin 0 \<and>
      compareTasks lc lcmp tie_old tie_new = Fin 0 \<and>
      jsSort (compareTasks lc lcmp) [tie_old, tie_new] = [tie_old, tie_new])"
proof (intro conjI impI)
  assume "wf_task a \<and> wf_task b \<and> roi a \<noteq> NaN \<and> roi b \<noteq> NaN \<and>
    priority a \<in> {js ''High'', js ''Medium'', js ''Low''} \<and>
    priority b \<in> {js ''High'', js ''Medium'', js ''Low''} \<and>
    tiesOnlyIdentical lcmp (lc (title a)) (lc (title b))"
  then show "jlt (compareTasks lc lcmp a b) (Fin 0) \<longleftrightarrow> fourKeyBefore lc lcmp a b"
    using compareTasks_four_key[of a b lcmp lc] by blast
next
  show "jsSort (compareTasks lc lcmp) [task_low_B, task_high_A] = [task_high_A, task_low_B]"
    by (rule sort_example)
next
  assume h: "jeq (roi c) (roi d) \<and> priority c = priority d \<and> lc (title c) \<noteq> lc (title d)"
  then have n: "roi c \<noteq> NaN" "roi d \<noteq> NaN" by (auto simp add: jeq_def)
  have "\<not> strictNe (priRank (priority d)) (priRank (priority d))"
    by (auto simp add: strictNe_def priRank_def jeq_def split: jsprop.splits)
  then show "compareTasks lc lcmp c d = lcmp (lc (title c)) (lc (title d))"
    using h n by (simp add: compareTasks_def Let_def roiKey_roi)
next
  assume t: "canonicalTie lc lcmp"
  show "fourKeyBefore lc lcmp tie_new tie_old"
    using t by (simp add: fourKeyBefore_def tie_fields jeq_def canonicalTie_def)
  show "compareTasks lc lcmp tie_new tie_old = Fin 0" by (rule compareTasks_tie_pair(1)[OF t])
  show "compareTasks lc lcmp tie_old tie_new = Fin 0" by (rule compareTasks_tie_pair(2)[OF t])
  show "jsSort (compareTasks lc lcmp) [tie_old, tie_new] = [tie_old, tie_new]"
    by (simp add: jsSort_def compareTasks_tie_pair[OF t])
qed (simp_all add: tie_fields jeq_def)

theorem compareTasks_title_tie_witness:
  "wf_task task_high_A \<and> wf_task task_low_B \<and>
   tiesOnlyIdentical canonCompare (asciiLower (title task_high_A)) (asciiLower (title task_low_B)) \<and>
   jlt (compareTasks asciiLower canonCompare task_high_A task_low_B) (Fin 0) \<and>
   fourKeyBefore asciiLower canonCompare task_high_A task_low_B \<and>
   canonicalTie asciiLower canonCompare \<and>
   asciiLower (title tie_new) \<noteq> asciiLower (title tie_old) \<and>
   compareTasks asciiLower canonCompare tie_new tie_old =
     canonCompare (asciiLower (title tie_new)) (asciiLower (title tie_old)) \<and>
   fourKeyBefore asciiLower canonCompare tie_new tie_old \<and>
   compareTasks asciiLower canonCompare tie_new tie_old = Fin 0 \<and>
   compareTasks asciiLower canonCompare tie_old tie_new = Fin 0 \<and>
   jsSort (compareTasks asciiLower canonCompare) [tie_old, tie_new] = [tie_old, tie_new]"
proof -
  note t = compareTasks_title_tie[of task_high_A task_low_B canonCompare asciiLower tie_new tie_old]
  have p: "roi task_high_A \<noteq> NaN" "roi task_low_B \<noteq> NaN"
    "priority task_high_A \<in> {js ''High'', js ''Medium'', js ''Low''}"
    "priority task_low_B \<in> {js ''High'', js ''Medium'', js ''Low''}"
    by (simp_all add: task_high_A_def task_low_B_def)
  have f: "fourKeyBefore asciiLower canonCompare task_high_A task_low_B"
    by (simp add: fourKeyBefore_def task_high_A_def task_low_B_def jeq_def rankOf_standard)
  have d: "asciiLower (title tie_new) \<noteq> asciiLower (title tie_old)"
    by (simp add: tie_fields asciiLower_def)
  have e: "jeq (roi tie_new) (roi tie_old)" "priority tie_new = priority tie_old"
    by (simp_all add: tie_fields jeq_def)
  show ?thesis
    using t p f d e wf_task_samples tiesOnlyIdentical_samples canonicalTie_sample by blast
qed

text \<open>
  C7.  The sort is claimed to be deterministic: on tasks no two of which agree on all four
  keys the comparator is a strict total order, so every arrangement of the same tasks is
  sorted to the same sequence.  Two pairs of tasks show that the code is not.  \<open>importCsv\<close>
  keeps the priority of a row as it is written; of two imported tasks with equal ROI and
  the priorities \<open>Urgent\<close> and \<open>High\<close> the comparator returns \<open>3 - undefined\<close>, which is
  \<open>NaN\<close>, in both directions.  And on the two tasks whose titles are canonically equivalent
  spellings the comparator returns the 0 of \<open>localeCompare\<close> in both directions without
  reading \<open>createdAt\<close>.  Neither pair agrees on the four keys, neither task of a pair comes
  before the other, and each arrangement of a pair is sorted to itself.
\<close>

theorem sort_not_deterministic:
  "urgent_task \<noteq> high_task \<and> \<not> sameKeys lc urgent_task high_task \<and>
   rankOf (priority urgent_task) \<noteq> rankOf (priority high_task) \<and>
   compareTasks lc lcmp urgent_task high_task = NaN \<and>
   compareTasks lc lcmp high_task urgent_task = NaN \<and>
   jsSort (compareTasks lc lcmp) [urgent_task, high_task] = [urgent_task, high_task] \<and>
   jsSort (compareTasks lc lcmp) [high_task, urgent_task] = [high_task, urgent_task] \<and>
   (canonicalTie lc lcmp \<longrightarrow>
      tie_new \<noteq> tie_old \<and> \<not> sameKeys lc tie_new tie_old \<and>
      \<not> jlt (compareTasks lc lcmp tie_new tie_old) (Fin 0) \<and>
      \<not> jlt (compareTasks lc lcmp tie_old tie_new) (Fin 0) \<and>
      jsSort (compareTasks lc lcmp) [tie_new, tie_old] = [tie_new, tie_old] \<and>
      jsSort (compareTasks lc lcmp) [tie_old, tie_new] = [tie_old, tie_new])"
proof (intro conjI impI)
  have "priority urgent_task \<noteq> priority high_task" by (simp add: imported_fields js_simps)
  then show "urgent_task \<noteq> high_task" by auto
  show "\<not> sameKeys lc urgent_task high_task"
    by (simp add: sameKeys_def imported_fields priRank_standard priRank_Urgent strictNe_def)
  show "rankOf (priority urgent_task) \<noteq> rankOf (priority high_task)"
    by (simp add: imported_fields rankOf_def js_simps)
  show "compareTasks lc lcmp urgent_task high_task = NaN"
    "compareTasks lc lcmp high_task urgent_task = NaN"
    by (rule compareTasks_urgent_pair)+
  show "jsSort (compareTasks lc lcmp) [urgent_task, high_task] = [urgent_task, high_task]"
    "jsSort (compareTasks lc lcmp) [high_task, urgent_task] = [high_task, urgent_task]"
    by (simp_all add: jsSort_def compareTasks_urgent_pair)
next
  assume t: "canonicalTie lc lcmp"
  have "createdAt tie_new \<noteq> createdAt tie_old" by (simp add: tie_fields)
  then show "tie_new \<noteq> tie_old" by auto
  show "\<not> sameKeys lc tie_new tie_old"
    using t by (simp add: sameKeys_def tie_fields canonicalTie_def)
  show "\<not> jlt (compareTasks lc lcmp tie_new tie_old) (Fin 0)"
    "\<not> jlt (compareTasks lc lcmp tie_old tie_new) (Fin 0)"
    by (simp_all add: compareTasks_tie_pair[OF t])
  show "jsSort (compareTasks lc lcmp) [tie_new, tie_old] = [tie_new, tie_old]"
    "jsSort (compareTasks lc lcmp) [tie_old, tie_new] = [tie_old, tie_new]"
    by (simp_all add: jsSort_def compareTasks_tie_pair[OF t])
qed

theorem sort_not_deterministic_witness:
  "canonicalTie asciiLower canonCompare \<and>
   mset [high_task, urgent_task] = mset [urgent_task, high_task] \<and>
   sortedFiltered asciiLower canonCompare (js ''All'') (js ''All'') [] [urgent_task, high_task] =
     [urgent_task, high_task] \<and>
   sortedFiltered asciiLower canonCompare (js ''All'') (js ''All'') [] [high_task, urgent_task] =
     [high_task, urgent_task] \<and>
   [urgent_task, high_task] \<noteq> [high_task, urgent_task] \<and>
   mset [tie_old, tie_new] = mset [tie_new, tie_old] \<and>
   sortedFiltered asciiLower canonCompare (js ''All'') (js ''All'') [] [tie_new, tie_old] =
     [tie_new, tie_old] \<and>
   sortedFiltered asciiLower canonCompare (js ''All'') (js ''All'') [] [tie_old, tie_new] =
     [tie_old, tie_new] \<and>
   [tie_new, tie_old] \<noteq> [tie_old, tie_new]"
proof -
  note t = sort_not_deterministic[of asciiLower canonCompare]
  have s: "jsSort (compareTasks asciiLower canonCompare) [urgent_task, high_task] =
             [urgent_task, high_task]"
    "jsSort (compareTasks asciiLower canonCompare) [high_task, urgent_task] =
             [high_task, urgent_task]"
    "jsSort (compareTasks asciiLower canonCompare) [tie_new, tie_old] = [tie_new, tie_old]"
    "jsSort (compareTasks asciiLower canonCompare) [tie_old, tie_new] = [tie_old, tie_new]"
    using t canonicalTie_sample by blast+
  have n: "urgent_task \<noteq> high_task" "tie_new \<noteq> tie_old"
    using t canonicalTie_sample by blast+
  have f: "asciiLower [] = []" by (simp add: asciiLower_def)
  show ?thesis
    using canonicalTie_sample n by (simp add: sortedFiltered_def f s)
qed

end
